theory Spec2Isabelle
  imports Main
begin

section \<open>Element kinds (backend/dtype/enum.go)\<close>

text \<open>The closed enumeration of element kinds, in the order of their numeric tags
  (\<open>InvalidDType = 0\<close>, ..., \<open>F6E2M3FN = 30\<close>).\<close>

datatype DType =
    InvalidDType | Bool | Int8 | Int16 | Int32 | Int64
  | Uint8 | Uint16 | Uint32 | Uint64
  | Float16 | Float32 | Float64 | BFloat16
  | Complex64 | Complex128
  | F8E5M2 | F8E4M3FN | F8E4M3B11FNUZ | F8E5M2FNUZ | F8E4M3FNUZ
  | S4 | U4 | S2 | U2 | F8E4M3 | F8E3M4 | F8E8M0FNU | F4E2M1FN | F6E3M2FN | F6E2M3FN

section \<open>Array types (backend/atype/atype.go)\<close>

text \<open>Go's \<open>int\<close> is the 64-bit two's-complement integer.  It is modelled as \<open>int\<close>, and the
  result of every addition, subtraction and multiplication of the code is brought back into the
  range from \<open>-2^63\<close> to \<open>2^63 - 1\<close> by \<open>wrap64\<close>, as the machine does.  Only the lengths of
  slices and the counts of axes, which a slice in memory keeps far below \<open>2^63\<close>, are natural
  numbers.  A slice is a list; a
  \<open>nil\<close> slice and an empty slice are both the empty list, except where the code tests for
  \<open>nil\<close> (there the argument is an \<open>option\<close>).\<close>

definition wrap64 :: "int \<Rightarrow> int" where
  "wrap64 x = (x + 2 ^ 63) mod 2 ^ 64 - 2 ^ 63"

record ArrayType =
  DType :: DType
  AxisLengths :: "int list"

text \<open>How a failure reaches the caller: \<open>Panic\<close> is Go's \<open>panic(errors.Errorf ...)\<close>,
  which aborts the operation; \<open>Error\<close> is an \<open>error\<close> value handed back as a result.\<close>

datatype cause =
    NegativeAxisLength ArrayType
  | IndicesLength nat nat
  | StridesLength nat nat
  | InvalidAxis int nat

datatype failure = Panic cause | Error cause

text \<open>\<open>Make\<close>: the loop over \<open>axisLengths\<close> panics at the first negative entry; the message
  is formatted from the array type built from the arguments.\<close>

definition Make :: "DType \<Rightarrow> int list \<Rightarrow> failure + ArrayType" where
  "Make dtype axisLengths =
     (let at = \<lparr>DType = dtype, AxisLengths = axisLengths\<rparr>
      in case find (\<lambda>length. length < 0) axisLengths of
           Some _ \<Rightarrow> Inl (Panic (NegativeAxisLength at))
         | None \<Rightarrow> Inr at)"

definition Invalid :: ArrayType where
  "Invalid = \<lparr>DType = InvalidDType, AxisLengths = []\<rparr>"

definition Ok :: "ArrayType \<Rightarrow> bool" where
  "Ok at = (DType at \<noteq> InvalidDType)"

definition NumAxes :: "ArrayType \<Rightarrow> nat" where
  "NumAxes at = length (AxisLengths at)"

definition IsScalar :: "ArrayType \<Rightarrow> bool" where
  "IsScalar at = (Ok at \<and> NumAxes at = 0)"

definition Size :: "ArrayType \<Rightarrow> int" where
  "Size at = foldl (\<lambda>size length. wrap64 (size * length)) 1 (AxisLengths at)"

definition IsZeroSize :: "ArrayType \<Rightarrow> bool" where
  "IsZeroSize at = list_ex (\<lambda>length. length = 0) (AxisLengths at)"

definition Equal :: "ArrayType \<Rightarrow> ArrayType \<Rightarrow> bool" where
  "Equal at other =
     (if DType at \<noteq> DType other then False
      else if NumAxes at \<noteq> NumAxes other then False
      else if IsScalar at then True
      else AxisLengths at = AxisLengths other)"

definition Clone :: "ArrayType \<Rightarrow> ArrayType" where
  "Clone at = \<lparr>DType = DType at, AxisLengths = AxisLengths at\<rparr>"

text \<open>Go's builtin \<open>copy(dst, src)\<close> overwrites the first \<open>min (len dst) (len src)\<close>
  elements of \<open>dst\<close>.\<close>

definition copy :: "'a list \<Rightarrow> 'a list \<Rightarrow> 'a list" where
  "copy dst src = take (length dst) src @ drop (length src) dst"

definition ConcatenateAxes :: "ArrayType \<Rightarrow> ArrayType \<Rightarrow> ArrayType" where
  "ConcatenateAxes at1 at2 =
     (let result = \<lparr>DType = InvalidDType, AxisLengths = []\<rparr> in
      if DType at1 = InvalidDType \<or> DType at2 = InvalidDType then result
      else if DType at1 \<noteq> DType at2 then result
      else if IsScalar at1 then Clone at2
      else if IsScalar at2 then Clone at1
      else
        let buf = replicate (NumAxes at1 + NumAxes at2) 0;
            buf1 = copy buf (AxisLengths at1);
            buf2 = take (NumAxes at1) buf1 @ copy (drop (NumAxes at1) buf1) (AxisLengths at2)
        in \<lparr>DType = DType at1, AxisLengths = buf2\<rparr>)"

subsection \<open>Binary serialization\<close>

text \<open>\<open>encoding/gob\<close> belongs to Go's standard library, not to this repository.  Its encoder and
  decoder are modelled as a stream of typed values: \<open>Encode\<close> appends one value, \<open>Decode\<close>
  removes the first value and fails on an empty stream or on a value of another type.\<close>

datatype gob_value = GobDType DType | GobInts "int list"

datatype gob_error = EncodeFailed | DecodeFailed

type_synonym gob_stream = "gob_value list"

definition Encode :: "gob_value \<Rightarrow> gob_stream \<Rightarrow> gob_error + gob_stream" where
  "Encode e stream = Inr (stream @ [e])"

fun Decode_DType :: "gob_stream \<Rightarrow> gob_error + (DType \<times> gob_stream)" where
  "Decode_DType (GobDType d # stream) = Inr (d, stream)"
| "Decode_DType _ = Inl DecodeFailed"

fun Decode_Ints :: "gob_stream \<Rightarrow> gob_error + (int list \<times> gob_stream)" where
  "Decode_Ints (GobInts xs # stream) = Inr (xs, stream)"
| "Decode_Ints _ = Inl DecodeFailed"

text \<open>\<open>GobSerialize\<close>: the closure \<open>enc\<close> does nothing once \<open>err\<close> is set.  The state is the
  encoder's stream together with \<open>err\<close>.\<close>

definition enc :: "gob_value \<Rightarrow> gob_stream \<times> gob_error option \<Rightarrow> gob_stream \<times> gob_error option" where
  "enc e st =
     (case st of
        (stream, Some err) \<Rightarrow> (stream, Some err)
      | (stream, None) \<Rightarrow>
          (case Encode e stream of
             Inl err \<Rightarrow> (stream, Some err)
           | Inr stream' \<Rightarrow> (stream', None)))"

definition GobSerialize :: "ArrayType \<Rightarrow> gob_stream \<Rightarrow> gob_stream \<times> gob_error option" where
  "GobSerialize at encoder = enc (GobInts (AxisLengths at)) (enc (GobDType (DType at)) (encoder, None))"

text \<open>\<open>GobDeserialize\<close>: the closure \<open>dec\<close> likewise; a field whose decoding is skipped or
  fails keeps its zero value.\<close>

definition GobDeserialize :: "gob_stream \<Rightarrow> (ArrayType \<times> gob_error option) \<times> gob_stream" where
  "GobDeserialize decoder =
     (let at = \<lparr>DType = InvalidDType, AxisLengths = []\<rparr>;
          (at1, err1, decoder1) =
            (case Decode_DType decoder of
               Inl err \<Rightarrow> (at, Some err, decoder)
             | Inr (d, rest) \<Rightarrow> (at\<lparr>DType := d\<rparr>, None, rest));
          (at2, err2, decoder2) =
            (case err1 of
               Some err \<Rightarrow> (at1, Some err, decoder1)
             | None \<Rightarrow>
                 (case Decode_Ints decoder1 of
                    Inl err \<Rightarrow> (at1, Some err, decoder1)
                  | Inr (xs, rest) \<Rightarrow> (at1\<lparr>AxisLengths := xs\<rparr>, None, rest)))
      in ((at2, err2), decoder2))"

section \<open>Strides (backend/atype, the file of \<open>Strides\<close> and the iterators)\<close>

text \<open>The loop \<open>for axis := numAxes - 1; axis >= 0; axis--\<close>; the counter of the model is
  \<open>axis + 1\<close>.\<close>

fun strides_loop :: "int list \<Rightarrow> nat \<Rightarrow> int list \<Rightarrow> int \<Rightarrow> int list" where
  "strides_loop lens 0 strides currentStride = strides"
| "strides_loop lens (Suc axis) strides currentStride =
     strides_loop lens axis (strides[axis := currentStride]) (wrap64 (currentStride * lens ! axis))"

definition Strides :: "ArrayType \<Rightarrow> int list" where
  "Strides at =
     (let numAxes = NumAxes at in
      if numAxes = 0 then []
      else
        let strides = replicate numAxes 0 in
        if IsZeroSize at then strides
        else strides_loop (AxisLengths at) numAxes strides 1)"

section \<open>Full iteration\<close>

text \<open>An iteration is observed as the list of yielded pairs, each with a snapshot of the
  coordinate buffer at the moment of the yield, and a flag telling whether the iterator ran to
  its end.  The unbounded \<open>for { ... }\<close> loops take fuel: the number of passes through the loop
  body that are observed.  A consumer that cancels sees a prefix of the list.\<close>

type_synonym iteration = "(int \<times> int list) list \<times> bool"

text \<open>The loop that validates the axis lengths and counts the non-trivial ones; \<open>None\<close> is the
  early \<open>return\<close> at a non-positive length.\<close>

fun count_non_trivial :: "int list \<Rightarrow> nat \<Rightarrow> nat option" where
  "count_non_trivial [] numNonTrivialAxes = Some numNonTrivialAxes"
| "count_non_trivial (len # rest) numNonTrivialAxes =
     (if len \<le> 0 then None
      else if len > 1 then count_non_trivial rest (numNonTrivialAxes + 1)
      else count_non_trivial rest numNonTrivialAxes)"

text \<open>Version 2, the inner loop \<open>for axis := numAxes - 1; axis >= 0; axis--\<close> (the counter is
  \<open>axis + 1\<close>).  \<open>True\<close> is \<open>continue v2Yielder\<close>, \<open>False\<close> is falling out of the loop to the
  \<open>break\<close>.  The buffer has \<open>numAxes\<close> entries (checked on entry of \<open>IterOn\<close>), so every
  access is in range.\<close>

fun v2_increment :: "int list \<Rightarrow> nat \<Rightarrow> int list \<Rightarrow> bool \<times> int list" where
  "v2_increment lens 0 indices = (False, indices)"
| "v2_increment lens (Suc axis) indices =
     (if lens ! axis = 1 then v2_increment lens axis indices
      else
        let indices1 = indices[axis := wrap64 (indices ! axis + 1)] in
        if indices1 ! axis < lens ! axis then (True, indices1)
        else v2_increment lens axis (indices1[axis := 0]))"

fun v2Yielder :: "int list \<Rightarrow> nat \<Rightarrow> int \<Rightarrow> int list \<Rightarrow> iteration" where
  "v2Yielder lens 0 flatIdx indices = ([], False)"
| "v2Yielder lens (Suc fuel) flatIdx indices =
     (case v2_increment lens (length lens) indices of
        (True, indices') \<Rightarrow>
          (case v2Yielder lens fuel (wrap64 (flatIdx + 1)) indices' of
             (pairs, finished) \<Rightarrow> ((flatIdx, indices) # pairs, finished))
      | (False, _) \<Rightarrow> ([(flatIdx, indices)], True))"

text \<open>Version 3: the non-trivial axes, collected in increasing order and then reversed.\<close>

definition spatialAxes :: "int list \<Rightarrow> nat list" where
  "spatialAxes lens = rev (filter (\<lambda>axis. lens ! axis > 1) [0..<length lens])"

fun v3_increment :: "int list \<Rightarrow> nat list \<Rightarrow> int list \<Rightarrow> bool \<times> int list" where
  "v3_increment lens [] indices = (False, indices)"
| "v3_increment lens (axis # rest) indices =
     (let indices1 = indices[axis := wrap64 (indices ! axis + 1)] in
      if indices1 ! axis < lens ! axis then (True, indices1)
      else v3_increment lens rest (indices1[axis := 0]))"

fun v3Yielder :: "int list \<Rightarrow> nat list \<Rightarrow> nat \<Rightarrow> int \<Rightarrow> int list \<Rightarrow> iteration" where
  "v3Yielder lens axes 0 flatIdx indices = ([], False)"
| "v3Yielder lens axes (Suc fuel) flatIdx indices =
     (case v3_increment lens axes indices of
        (True, indices') \<Rightarrow>
          (case v3Yielder lens axes fuel (wrap64 (flatIdx + 1)) indices' of
             (pairs, finished) \<Rightarrow> ((flatIdx, indices) # pairs, finished))
      | (False, _) \<Rightarrow> ([(flatIdx, indices)], True))"

definition IterOn :: "ArrayType \<Rightarrow> int list \<Rightarrow> nat \<Rightarrow> failure + iteration" where
  "IterOn at indices fuel =
     (if length indices \<noteq> NumAxes at then Inl (Panic (IndicesLength (length indices) (NumAxes at)))
      else Inr
        (if \<not> Ok at then ([], True)
         else
           let numAxes = NumAxes at in
           if numAxes = 0 then ([(0, indices)], True)
           else
             case count_non_trivial (AxisLengths at) 0 of
               None \<Rightarrow> ([], True)
             | Some numNonTrivialAxes \<Rightarrow>
                 let indices0 = map (\<lambda>_. 0) indices in
                 if numNonTrivialAxes = 0 then ([(0, indices0)], True)
                 else if numAxes > numNonTrivialAxes + 2
                   then v2Yielder (AxisLengths at) fuel 0 indices0
                   else v3Yielder (AxisLengths at) (spatialAxes (AxisLengths at)) fuel 0 indices0))"

definition Iter :: "ArrayType \<Rightarrow> nat \<Rightarrow> failure + iteration" where
  "Iter at fuel = IterOn at (replicate (NumAxes at) 0) fuel"

section \<open>Partial iteration\<close>

text \<open>The loop over \<open>axesToIterate\<close> that validates each axis and resets its coordinate.
  \<open>Inr None\<close> is the early \<open>return\<close> at an axis of non-positive length.\<close>

fun reset_axes :: "int list \<Rightarrow> nat \<Rightarrow> int list \<Rightarrow> int list \<Rightarrow> failure + int list option" where
  "reset_axes lens numAxes [] indices = Inr (Some indices)"
| "reset_axes lens numAxes (axis # rest) indices =
     (if axis < 0 \<or> axis \<ge> int numAxes then Inl (Panic (InvalidAxis axis numAxes))
      else if lens ! nat axis \<le> 0 then Inr None
      else reset_axes lens numAxes rest (indices[nat axis := 0]))"

text \<open>The initial flat index: \<open>for axis := 0; axis < numAxes; axis++\<close>.\<close>

definition initial_flatIdx :: "nat \<Rightarrow> int list \<Rightarrow> int list \<Rightarrow> int" where
  "initial_flatIdx numAxes indices strides =
     foldl (\<lambda>flatIdx axis. wrap64 (flatIdx + wrap64 (indices ! axis * strides ! axis))) 0
       [0..<numAxes]"

text \<open>The inner loop \<open>for axisIdx := len(axesToIterate) - 1; axisIdx >= 0; axisIdx--\<close> (the
  counter is \<open>axisIdx + 1\<close>).  It runs only after \<open>reset_axes\<close> has accepted every axis.
  With an axis listed twice the outer loop need not end, hence the fuel.\<close>

fun axes_increment ::
  "int list \<Rightarrow> int list \<Rightarrow> int list \<Rightarrow> nat \<Rightarrow> int \<Rightarrow> int list \<Rightarrow> bool \<times> int \<times> int list" where
  "axes_increment lens strides axesToIterate 0 flatIdx indices = (False, flatIdx, indices)"
| "axes_increment lens strides axesToIterate (Suc axisIdx) flatIdx indices =
     (let axis = nat (axesToIterate ! axisIdx);
          indices1 = indices[axis := wrap64 (indices ! axis + 1)];
          flatIdx1 = wrap64 (flatIdx + strides ! axis)
      in
        if indices1 ! axis < lens ! axis then (True, flatIdx1, indices1)
        else axes_increment lens strides axesToIterate axisIdx
               (wrap64 (flatIdx1 - wrap64 (indices1 ! axis * strides ! axis)))
               (indices1[axis := 0]))"

fun axesYielder ::
  "int list \<Rightarrow> int list \<Rightarrow> int list \<Rightarrow> nat \<Rightarrow> int \<Rightarrow> int list \<Rightarrow> iteration" where
  "axesYielder lens strides axesToIterate 0 flatIdx indices = ([], False)"
| "axesYielder lens strides axesToIterate (Suc fuel) flatIdx indices =
     (case axes_increment lens strides axesToIterate (length axesToIterate) flatIdx indices of
        (True, flatIdx', indices') \<Rightarrow>
          (case axesYielder lens strides axesToIterate fuel flatIdx' indices' of
             (pairs, finished) \<Rightarrow> ((flatIdx, indices) # pairs, finished))
      | (False, _) \<Rightarrow> ([(flatIdx, indices)], True))"

text \<open>The function value that \<open>IterOnAxes\<close> returns, run on a consumer; \<open>strides\<close> and
  \<open>indices\<close> are the validated buffers.\<close>

definition IterOnAxes_seq ::
  "ArrayType \<Rightarrow> int list \<Rightarrow> int list \<Rightarrow> int list \<Rightarrow> nat \<Rightarrow> failure + iteration" where
  "IterOnAxes_seq at axesToIterate strides indices fuel =
     (let numAxes = NumAxes at in
      if \<not> Ok at then Inr ([], True)
      else if numAxes = 0 then Inr ([(0, indices)], True)
      else
        (case reset_axes (AxisLengths at) numAxes axesToIterate indices of
           Inl p \<Rightarrow> Inl p
         | Inr None \<Rightarrow> Inr ([], True)
         | Inr (Some indices0) \<Rightarrow>
             Inr (axesYielder (AxisLengths at) strides axesToIterate fuel
                    (initial_flatIdx numAxes indices0 strides) indices0)))"

text \<open>\<open>IterOnAxes\<close>: \<open>strides\<close> and \<open>indices\<close> may be \<open>nil\<close> (\<open>None\<close>); their lengths are
  checked before the iteration starts.\<close>

definition IterOnAxes ::
  "ArrayType \<Rightarrow> int list \<Rightarrow> int list option \<Rightarrow> int list option \<Rightarrow> nat \<Rightarrow> failure + iteration" where
  "IterOnAxes at axesToIterate strides indices fuel =
     (let numAxes = NumAxes at in
      case (case strides of
              None \<Rightarrow> Inr (Strides at)
            | Some s \<Rightarrow> if length s \<noteq> numAxes then Inl (Panic (StridesLength (length s) numAxes))
                        else Inr s) of
        Inl p \<Rightarrow> Inl p
      | Inr strides' \<Rightarrow>
          (case (case indices of
                   None \<Rightarrow> Inr (replicate numAxes 0)
                 | Some i \<Rightarrow> if length i \<noteq> numAxes then Inl (Panic (IndicesLength (length i) numAxes))
                             else Inr i) of
             Inl p \<Rightarrow> Inl p
           | Inr indices' \<Rightarrow> IterOnAxes_seq at axesToIterate strides' indices' fuel))"

section \<open>Shape inference\<close>

text \<open>A Go value handed to \<open>FromAnyValue\<close> together with its type: a value of a slice type is
  the list of its elements, any other value is a leaf that carries its Go type \<open>'t\<close>.
  \<open>reflect.Value\<close> and \<open>reflect.Type\<close> always agree, so \<open>t.Kind() != reflect.Slice\<close> is the
  case distinction on the value.  \<open>dtype.FromGoType\<close> is not part of the sources at hand and
  is a parameter.\<close>

datatype 't go_value = Leaf 't | Slice "'t go_value list"

datatype 't infer_error =
    UnsupportedType 't
  | EmptySlice
  | IrregularSubSlices ArrayType ArrayType

text \<open>\<open>arrayTypeForAnyValueRecursive\<close> updates \<open>*arrayType\<close> in place and returns an error;
  the model returns the updated array type with the error.  \<open>siblings\<close> is the loop
  \<open>for ii := 1; ii < v.Len(); ii++\<close>.\<close>

fun arrayTypeForAnyValueRecursive ::
      "('t \<Rightarrow> DType) \<Rightarrow> ArrayType \<Rightarrow> 't go_value \<Rightarrow> ArrayType \<times> 't infer_error option"
  and siblings ::
      "('t \<Rightarrow> DType) \<Rightarrow> ArrayType \<Rightarrow> ArrayType \<Rightarrow> 't go_value list \<Rightarrow> ArrayType \<times> 't infer_error option"
where
  "arrayTypeForAnyValueRecursive FromGoType arrayType (Leaf t) =
     (let arrayType1 = arrayType\<lparr>DType := FromGoType t\<rparr> in
      if DType arrayType1 = InvalidDType then (arrayType1, Some (UnsupportedType t))
      else (arrayType1, None))"
| "arrayTypeForAnyValueRecursive FromGoType arrayType (Slice []) =
     (arrayType\<lparr>AxisLengths := AxisLengths arrayType @ [0]\<rparr>, Some EmptySlice)"
| "arrayTypeForAnyValueRecursive FromGoType arrayType (Slice (v0 # rest)) =
     (let arrayType1 = arrayType\<lparr>AxisLengths := AxisLengths arrayType @ [int (length (v0 # rest))]\<rparr>;
          arrayTypePrefix = Clone arrayType1
      in case arrayTypeForAnyValueRecursive FromGoType arrayType1 v0 of
           (arrayType2, Some err) \<Rightarrow> (arrayType2, Some err)
         | (arrayType2, None) \<Rightarrow> siblings FromGoType arrayTypePrefix arrayType2 rest)"
| "siblings FromGoType arrayTypePrefix arrayType [] = (arrayType, None)"
| "siblings FromGoType arrayTypePrefix arrayType (v # rest) =
     (case arrayTypeForAnyValueRecursive FromGoType (Clone arrayTypePrefix) v of
        (arrayTypeTest, Some err) \<Rightarrow> (arrayType, Some err)
      | (arrayTypeTest, None) \<Rightarrow>
          if \<not> Equal arrayType arrayTypeTest
          then (arrayType, Some (IrregularSubSlices arrayType arrayTypeTest))
          else siblings FromGoType arrayTypePrefix arrayType rest)"

definition FromAnyValue :: "('t \<Rightarrow> DType) \<Rightarrow> 't go_value \<Rightarrow> ArrayType \<times> 't infer_error option" where
  "FromAnyValue FromGoType v =
     arrayTypeForAnyValueRecursive FromGoType \<lparr>DType = InvalidDType, AxisLengths = []\<rparr> v"

section \<open>Notions used in the statements\<close>

text \<open>The pairs an iteration hands to its consumer; an iteration that panics hands over
  none (every panic of \<open>IterOn\<close> and \<open>IterOnAxes\<close> comes before the first yield).\<close>

definition yielded :: "failure + iteration \<Rightarrow> (int \<times> int list) list" where
  "yielded r = (case r of Inl _ \<Rightarrow> [] | Inr (pairs, _) \<Rightarrow> pairs)"

text \<open>The reference enumeration: the Cartesian product of the ranges \<open>0, ..., len - 1\<close> of the
  axes in row-major order, the last axis varying fastest.\<close>

definition row_major :: "int list \<Rightarrow> int list list" where
  "row_major lens = product_lists (map (\<lambda>len. [0..len - 1]) lens)"

text \<open>The dot product of a coordinate vector with a vector of strides.\<close>

definition dot :: "int list \<Rightarrow> int list \<Rightarrow> int" where
  "dot indices strides = sum_list (map2 (\<lambda>i s. i * s) indices strides)"

text \<open>The row-major flat index of a coordinate vector, in Horner form, and the coordinate
  vectors that lie within the axis ranges.\<close>

definition flat_index :: "int list \<Rightarrow> int list \<Rightarrow> int" where
  "flat_index lens indices = foldl (\<lambda>acc (len, i). acc * len + i) 0 (zip lens indices)"

definition in_range :: "int list \<Rightarrow> int list \<Rightarrow> bool" where
  "in_range lens indices = list_all2 (\<lambda>len i. 0 \<le> i \<and> i < len) lens indices"

text \<open>A regularly nested value with its expected array type: a leaf of a supported type has
  the element kind of its type and no axes; a non-empty sequence whose elements all have element
  kind \<open>d\<close> and axes \<open>ds\<close> has element kind \<open>d\<close> and axes \<open>length # ds\<close>.\<close>

fun reduces_to :: "('t \<Rightarrow> DType) \<Rightarrow> 't go_value \<Rightarrow> DType \<Rightarrow> int list \<Rightarrow> bool" where
  "reduces_to FromGoType (Leaf t) d dims = (FromGoType t = d \<and> d \<noteq> InvalidDType \<and> dims = [])"
| "reduces_to FromGoType (Slice vs) d dims =
     (case dims of
        [] \<Rightarrow> False
      | n # ds \<Rightarrow> vs \<noteq> [] \<and> n = int (length vs) \<and> (\<forall>v \<in> set vs. reduces_to FromGoType v d ds))"

text \<open>A value that contains an empty sequence at some nesting level.\<close>

fun has_empty :: "'t go_value \<Rightarrow> bool" where
  "has_empty (Leaf t) = False"
| "has_empty (Slice vs) = (vs = [] \<or> (\<exists>v \<in> set vs. has_empty v))"

text \<open>A value that contains, at some nesting level, two elements of one sequence for which
  shape inference succeeds with different array types.\<close>

fun has_mismatch :: "('t \<Rightarrow> DType) \<Rightarrow> 't go_value \<Rightarrow> bool" where
  "has_mismatch FromGoType (Leaf t) = False"
| "has_mismatch FromGoType (Slice vs) =
     ((\<exists>v \<in> set vs. has_mismatch FromGoType v) \<or>
      (\<exists>u \<in> set vs. \<exists>w \<in> set vs.
         case (FromAnyValue FromGoType u, FromAnyValue FromGoType w) of
           ((a, None), (b, None)) \<Rightarrow> a \<noteq> b
         | _ \<Rightarrow> False))"

text \<open>The pairs of siblings that the inference compares: the first element \<open>u\<close> and a later
  element \<open>w\<close> of one sequence inside the value, each pair with the lengths of the enclosing
  sequences, from the outermost down to the sequence of \<open>u\<close> and \<open>w\<close> itself.\<close>

fun sibling_pairs :: "'t go_value \<Rightarrow> (int list \<times> 't go_value \<times> 't go_value) list" where
  "sibling_pairs (Leaf t) = []"
| "sibling_pairs (Slice []) = []"
| "sibling_pairs (Slice (v0 # rest)) =
     map (\<lambda>w. ([int (length (v0 # rest))], v0, w)) rest @
     concat (map (\<lambda>v. map (\<lambda>(pre, u, w). (int (length (v0 # rest)) # pre, u, w))
                          (sibling_pairs v))
                 (v0 # rest))"

section \<open>Wrap-around arithmetic\<close>

lemma wrap64_signed: "wrap64 x = signed_take_bit 63 x"
  by (simp add: wrap64_def signed_take_bit_eq_take_bit_shift take_bit_eq_mod)

lemma wrap64_id: "- (2 ^ 63) \<le> x \<Longrightarrow> x < 2 ^ 63 \<Longrightarrow> wrap64 x = x"
  by (simp add: wrap64_signed signed_take_bit_int_eq_self)

lemma wrap64_range: "- (2 ^ 63) \<le> wrap64 x" "wrap64 x < 2 ^ 63"
  using signed_take_bit_int_greater_eq_minus_exp [of 63 x] signed_take_bit_int_less_exp [of 63 x]
  by (simp_all add: wrap64_signed)

lemma wrap64_wrap64 [simp]: "wrap64 (wrap64 x) = wrap64 x"
  by (simp add: wrap64_signed)

lemma wrap64_add: "wrap64 (wrap64 a + wrap64 b) = wrap64 (a + b)"
  by (simp add: wrap64_signed signed_take_bit_add)

lemma wrap64_diff: "wrap64 (wrap64 a - wrap64 b) = wrap64 (a - b)"
  by (simp add: wrap64_signed signed_take_bit_diff)

lemma wrap64_mult: "wrap64 (wrap64 a * wrap64 b) = wrap64 (a * b)"
  by (simp add: wrap64_signed signed_take_bit_mult)

lemma wrap64_add_left [simp]: "wrap64 (wrap64 a + b) = wrap64 (a + b)"
  using wrap64_add [of "wrap64 a" b] wrap64_add [of a b] by simp

lemma wrap64_add_right [simp]: "wrap64 (a + wrap64 b) = wrap64 (a + b)"
  using wrap64_add [of a "wrap64 b"] wrap64_add [of a b] by simp

lemma wrap64_diff_left [simp]: "wrap64 (wrap64 a - b) = wrap64 (a - b)"
  using wrap64_diff [of "wrap64 a" b] wrap64_diff [of a b] by simp

lemma wrap64_diff_right [simp]: "wrap64 (a - wrap64 b) = wrap64 (a - b)"
  using wrap64_diff [of a "wrap64 b"] wrap64_diff [of a b] by simp

lemma wrap64_mult_left [simp]: "wrap64 (wrap64 a * b) = wrap64 (a * b)"
  using wrap64_mult [of "wrap64 a" b] wrap64_mult [of a b] by simp

lemma wrap64_mult_right [simp]: "wrap64 (a * wrap64 b) = wrap64 (a * b)"
  using wrap64_mult [of a "wrap64 b"] wrap64_mult [of a b] by simp

lemma wrap64_0 [simp]: "wrap64 0 = 0"
  by (simp add: wrap64_def)

lemma wrap64_1 [simp]: "wrap64 1 = 1"
  by (simp add: wrap64_def)

section \<open>Properties of the array-type value\<close>

lemma foldl_wrap_mult:
  "foldl (\<lambda>size len. wrap64 (size * len)) (wrap64 a) xs = wrap64 (a * prod_list xs)"
  by (induction xs arbitrary: a) (simp_all add: mult.assoc)

lemma Size_wrap: "Size at = wrap64 (prod_list (AxisLengths at))"
  using foldl_wrap_mult [of 1 "AxisLengths at"] by (simp add: Size_def)

lemma Size_prod_list:
  "0 \<le> prod_list (AxisLengths at) \<Longrightarrow> prod_list (AxisLengths at) < 2 ^ 63 \<Longrightarrow>
   Size at = prod_list (AxisLengths at)"
  by (simp add: Size_wrap wrap64_id)

lemma prod_list_ge1: "\<forall>len \<in> set xs. 1 \<le> len \<Longrightarrow> 1 \<le> prod_list (xs :: int list)"
proof (induction xs)
  case Nil
  then show ?case by simp
next
  case (Cons x xs)
  then have "1 \<le> x" "1 \<le> prod_list xs" by simp_all
  then have "1 * 1 \<le> x * prod_list xs" by (intro mult_mono) simp_all
  then show ?case by simp
qed

lemma prod_list_drop_le:
  assumes "\<forall>len \<in> set xs. 1 \<le> len"
  shows "1 \<le> prod_list (drop j xs) \<and> prod_list (drop j xs) \<le> prod_list (xs :: int list)"
proof -
  have t: "1 \<le> prod_list (take j xs)" and d: "1 \<le> prod_list (drop j xs)"
    using assms by (auto intro!: prod_list_ge1 dest: in_set_takeD in_set_dropD)
  have "prod_list xs = prod_list (take j xs) * prod_list (drop j xs)"
    using prod_list.append [of "take j xs" "drop j xs"] by simp
  moreover have "1 * prod_list (drop j xs) \<le> prod_list (take j xs) * prod_list (drop j xs)"
    using t d by (intro mult_right_mono) simp_all
  ultimately show ?thesis using d by simp
qed

section \<open>Properties of the stride calculator\<close>

lemma strides_loop_length: "length (strides_loop lens n strides cur) = length strides"
  by (induction n arbitrary: strides cur) simp_all

text \<open>After the loop has come down to axis \<open>n\<close>, the entries from \<open>n\<close> on are as they were and the
  entries below \<open>n\<close> hold the running product of the lengths strictly between them and \<open>n\<close>,
  wrapped.\<close>

lemma strides_loop_nth:
  "n \<le> length lens \<Longrightarrow> length strides = length lens \<Longrightarrow> i < length lens \<Longrightarrow> wrap64 cur = cur \<Longrightarrow>
   strides_loop lens n strides cur ! i =
     (if i < n then wrap64 (cur * prod_list (take (n - Suc i) (drop (Suc i) lens)))
      else strides ! i)"
proof (induction n arbitrary: strides cur)
  case 0
  then show ?case by simp
next
  case (Suc n)
  have n: "n < length lens" using Suc.prems by simp
  note ih = Suc.IH [of "strides[n := cur]" "wrap64 (cur * lens ! n)"]
  show ?case
  proof (cases "i < n")
    case True
    then have "Suc n - Suc i = Suc (n - Suc i)" by simp
    moreover have "n - Suc i < length (drop (Suc i) lens)" using True n by simp
    moreover have "drop (Suc i) lens ! (n - Suc i) = lens ! n" using True n by simp
    ultimately have "take (Suc n - Suc i) (drop (Suc i) lens)
             = take (n - Suc i) (drop (Suc i) lens) @ [lens ! n]"
      by (simp only: take_Suc_conv_app_nth)
    with True ih Suc.prems show ?thesis
      by (simp add: mult.assoc mult.commute)
  next
    case False
    with ih Suc.prems show ?thesis
      by (cases "i = n") simp_all
  qed
qed

lemma Strides_nth:
  assumes "\<not> IsZeroSize at" "i < NumAxes at"
  shows "Strides at ! i = wrap64 (prod_list (drop (Suc i) (AxisLengths at)))"
  using assms strides_loop_nth [of "NumAxes at" "AxisLengths at" "replicate (NumAxes at) 0" i 1]
  by (auto simp: Strides_def NumAxes_def Let_def)

lemma Strides_length: "length (Strides at) = NumAxes at"
  by (simp add: Strides_def Let_def strides_loop_length)

lemma Strides_nth_exact:
  assumes "\<not> IsZeroSize at" "i < NumAxes at" "\<forall>len \<in> set (AxisLengths at). 0 \<le> len"
    and "prod_list (drop 1 (AxisLengths at)) < 2 ^ 63"
  shows "Strides at ! i = prod_list (drop (Suc i) (AxisLengths at))"
proof -
  have "\<forall>len \<in> set (AxisLengths at). 1 \<le> len"
  proof
    fix len assume "len \<in> set (AxisLengths at)"
    with assms(1,3) have "0 \<le> len" "len \<noteq> 0" by (auto simp: IsZeroSize_def list_ex_iff)
    then show "1 \<le> len" by simp
  qed
  then have "\<forall>len \<in> set (drop 1 (AxisLengths at)). 1 \<le> len"
    by (auto dest: in_set_dropD)
  from prod_list_drop_le [OF this, of i] assms(4)
  have "0 \<le> prod_list (drop (Suc i) (AxisLengths at))"
    "prod_list (drop (Suc i) (AxisLengths at)) < 2 ^ 63"
    by simp_all
  then show ?thesis using Strides_nth [OF assms(1,2)] by (simp add: wrap64_id)
qed

text \<open>Claim C4, as the code has it.  \<open>Strides\<close> returns one entry per axis.  Unless some axis
  has length 0, the last axis has stride 1 and the stride of axis \<open>i\<close> is the stride of axis
  \<open>i + 1\<close> times the length of axis \<open>i + 1\<close> in wrap-around arithmetic; this is the product
  itself when the axis lengths are non-negative and the product of the lengths after the first
  axis is below \<open>2^63\<close>.  If some axis has length 0, every stride is 0.  A rank-0 array type has
  the empty stride sequence.\<close>

theorem Strides_row_major:
  "length (Strides at) = NumAxes at \<and>
   (\<not> IsZeroSize at \<longrightarrow>
      (0 < NumAxes at \<longrightarrow> Strides at ! (NumAxes at - 1) = 1) \<and>
      (\<forall>i. i + 1 < NumAxes at \<longrightarrow>
           Strides at ! i = wrap64 (Strides at ! (i + 1) * AxisLengths at ! (i + 1)))) \<and>
   (\<not> IsZeroSize at \<and> (\<forall>len \<in> set (AxisLengths at). 0 \<le> len) \<and>
    prod_list (drop 1 (AxisLengths at)) < 2 ^ 63 \<longrightarrow>
      (\<forall>i. i + 1 < NumAxes at \<longrightarrow>
           Strides at ! i = Strides at ! (i + 1) * AxisLengths at ! (i + 1))) \<and>
   (IsZeroSize at \<longrightarrow> Strides at = replicate (NumAxes at) 0) \<and>
   (NumAxes at = 0 \<longrightarrow> Strides at = [])"
proof -
  have split: "drop (Suc i) (AxisLengths at)
      = AxisLengths at ! Suc i # drop (Suc (Suc i)) (AxisLengths at)"
    if "i + 1 < NumAxes at" for i
    using that by (simp add: NumAxes_def Cons_nth_drop_Suc)
  have last: "Strides at ! (NumAxes at - 1) = 1" if "\<not> IsZeroSize at" "0 < NumAxes at"
    using that Strides_nth [of at "NumAxes at - 1"] by (simp add: NumAxes_def)
  have step: "Strides at ! i = wrap64 (Strides at ! (i + 1) * AxisLengths at ! (i + 1))"
    if "\<not> IsZeroSize at" "i + 1 < NumAxes at" for i
    using that split [OF that(2)] Strides_nth [of at i] Strides_nth [of at "Suc i"]
    by (simp add: mult.commute)
  have exact: "Strides at ! i = Strides at ! (i + 1) * AxisLengths at ! (i + 1)"
    if "\<not> IsZeroSize at" "\<forall>len \<in> set (AxisLengths at). 0 \<le> len"
      "prod_list (drop 1 (AxisLengths at)) < 2 ^ 63" "i + 1 < NumAxes at" for i
    using that split [OF that(4)] Strides_nth_exact [of at i] Strides_nth_exact [of at "Suc i"]
    by (simp add: mult.commute)
  have zero: "Strides at = replicate (NumAxes at) 0" if "IsZeroSize at"
    using that by (auto simp: Strides_def Let_def IsZeroSize_def NumAxes_def list_ex_iff)
  have scalar: "Strides at = []" if "NumAxes at = 0"
    using that by (simp add: Strides_def)
  from last step exact zero scalar Strides_length show ?thesis by blast
qed

text \<open>The instances of the test suite, and one array type with an axis of length 0.\<close>

theorem Strides_row_major_witness:
  "Strides \<lparr>DType = Float32, AxisLengths = [2, 3, 4]\<rparr> = [12, 4, 1] \<and>
   Strides \<lparr>DType = Float32, AxisLengths = [5]\<rparr> = [1] \<and>
   Strides \<lparr>DType = Float32, AxisLengths = [3, 1, 2]\<rparr> = [2, 2, 1] \<and>
   Strides \<lparr>DType = Float32, AxisLengths = [3, 0, 2]\<rparr> = [0, 0, 0] \<and>
   Strides \<lparr>DType = Float32, AxisLengths = []\<rparr> = []"
  using Strides_row_major [of "\<lparr>DType = Float32, AxisLengths = [2, 3, 4]\<rparr>"]
    Strides_row_major [of "\<lparr>DType = Float32, AxisLengths = [3, 0, 2]\<rparr>"]
  by (simp add: Strides_def NumAxes_def IsZeroSize_def Let_def numeral_3_eq_3 wrap64_def)

text \<open>Claim C4 as stated takes the products as they are.  For \<open>Make(Float32, 2, 1<<32, 1<<32)\<close>
  the running product \<open>2^64\<close> wraps to 0, so the first stride is 0 and not the stride of the
  second axis times its length.\<close>

theorem Strides_overflow_counterexample:
  "\<not> IsZeroSize \<lparr>DType = Float32, AxisLengths = [2, 4294967296, 4294967296]\<rparr> \<and>
   Strides \<lparr>DType = Float32, AxisLengths = [2, 4294967296, 4294967296]\<rparr> = [0, 4294967296, 1] \<and>
   Strides \<lparr>DType = Float32, AxisLengths = [2, 4294967296, 4294967296]\<rparr> ! 0 \<noteq>
     Strides \<lparr>DType = Float32, AxisLengths = [2, 4294967296, 4294967296]\<rparr> ! 1 *
     AxisLengths \<lparr>DType = Float32, AxisLengths = [2, 4294967296, 4294967296]\<rparr> ! 1"
  by (simp add: Strides_def NumAxes_def IsZeroSize_def Let_def numeral_3_eq_3 wrap64_def)

section \<open>Construction\<close>

text \<open>Claim C5, as the code has it.  \<open>Make\<close> fails for every list of axis lengths with a
  negative entry, whatever the element kind; the failure is a panic, not a returned error, and
  its message is formatted from the array type with the offending lengths.\<close>

theorem Make_negative_panics:
  "(\<exists>len \<in> set axisLengths. len < 0) \<Longrightarrow>
   Make dtype axisLengths =
     Inl (Panic (NegativeAxisLength \<lparr>DType = dtype, AxisLengths = axisLengths\<rparr>))"
  by (auto simp: Make_def Let_def find_None_iff split: option.splits)

theorem Make_negative_panics_witness:
  "(\<exists>len \<in> set [3, -4, 0 :: int]. len < 0) \<and>
   Make Int32 [3, -4, 0] = Inl (Panic (NegativeAxisLength \<lparr>DType = Int32, AxisLengths = [3, -4, 0]\<rparr>))"
  using Make_negative_panics [of "[3, -4, 0]" Int32] by simp

text \<open>Claim C5 as stated asks for a returned (recoverable) error; at \<open>Make(Float32, 2, -1)\<close>
  the failure is a panic.\<close>

theorem Make_negative_counterexample:
  "Make Float32 [2, -1] = Inl (Panic (NegativeAxisLength \<lparr>DType = Float32, AxisLengths = [2, -1]\<rparr>))
   \<and> Make Float32 [2, -1] \<noteq> Inl (Error (NegativeAxisLength \<lparr>DType = Float32, AxisLengths = [2, -1]\<rparr>))"
  by (simp add: Make_def)

section \<open>Binary serialization\<close>

text \<open>Claim C7.  Serializing any array type succeeds and writes the element kind, then the
  axis lengths; deserializing what was written succeeds, consumes exactly these two values and
  returns an array type that is \<open>Equal\<close> to the original.\<close>

theorem Gob_round_trip:
  "GobSerialize a [] = ([GobDType (DType a), GobInts (AxisLengths a)], None) \<and>
   (\<exists>b. GobDeserialize (fst (GobSerialize a []) @ rest) = ((b, None), rest) \<and> Equal b a)"
  by (simp add: GobSerialize_def GobDeserialize_def enc_def Encode_def Equal_def NumAxes_def
      IsScalar_def)

theorem Gob_round_trip_witness:
  "GobDeserialize (fst (GobSerialize \<lparr>DType = Float32, AxisLengths = [2, 0, 4]\<rparr> []))
     = ((\<lparr>DType = Float32, AxisLengths = [2, 0, 4]\<rparr>, None), []) \<and>
   GobDeserialize (fst (GobSerialize \<lparr>DType = Int8, AxisLengths = []\<rparr> []))
     = ((\<lparr>DType = Int8, AxisLengths = []\<rparr>, None), [])"
  using Gob_round_trip [of "\<lparr>DType = Float32, AxisLengths = [2, 0, 4]\<rparr>" "[]"]
    Gob_round_trip [of "\<lparr>DType = Int8, AxisLengths = []\<rparr>" "[]"]
  by (simp add: GobSerialize_def GobDeserialize_def enc_def Encode_def)

section \<open>Concatenation of axes\<close>

lemma copy_concat:
  "take n (copy (replicate (n + m) z) xs) @ copy (drop n (copy (replicate (n + m) z) xs)) ys = xs @ ys"
  if "length xs = n" "length ys = m"
  using that by (simp add: copy_def)

text \<open>Claim C8.  If an operand is invalid or the element kinds differ, \<open>ConcatenateAxes\<close>
  returns the invalid sentinel.  Otherwise, if an operand is a scalar the result is a clone of
  the other operand, and if neither is, the result has the common element kind and the axes of
  the first operand followed by the axes of the second.\<close>

theorem ConcatenateAxes_contract:
  "(\<not> Ok a \<or> \<not> Ok b \<or> DType a \<noteq> DType b \<longrightarrow>
      ConcatenateAxes a b = Invalid \<and> \<not> Ok (ConcatenateAxes a b)) \<and>
   (Ok a \<and> Ok b \<and> DType a = DType b \<longrightarrow>
      (IsScalar a \<longrightarrow> ConcatenateAxes a b = Clone b) \<and>
      (IsScalar b \<longrightarrow> ConcatenateAxes a b = Clone a) \<and>
      (\<not> IsScalar a \<and> \<not> IsScalar b \<longrightarrow>
         DType (ConcatenateAxes a b) = DType a \<and>
         AxisLengths (ConcatenateAxes a b) = AxisLengths a @ AxisLengths b))"
  by (auto simp: ConcatenateAxes_def Invalid_def Ok_def IsScalar_def Clone_def NumAxes_def Let_def
      copy_concat)

theorem ConcatenateAxes_contract_witness:
  "ConcatenateAxes \<lparr>DType = Float32, AxisLengths = [2, 3]\<rparr> \<lparr>DType = Float32, AxisLengths = [4]\<rparr>
     = \<lparr>DType = Float32, AxisLengths = [2, 3, 4]\<rparr> \<and>
   ConcatenateAxes \<lparr>DType = Float32, AxisLengths = []\<rparr> \<lparr>DType = Float32, AxisLengths = [4]\<rparr>
     = \<lparr>DType = Float32, AxisLengths = [4]\<rparr> \<and>
   ConcatenateAxes \<lparr>DType = Float32, AxisLengths = [2, 3]\<rparr> \<lparr>DType = Float32, AxisLengths = []\<rparr>
     = \<lparr>DType = Float32, AxisLengths = [2, 3]\<rparr> \<and>
   ConcatenateAxes \<lparr>DType = Float32, AxisLengths = [2, 3]\<rparr> \<lparr>DType = Int32, AxisLengths = [4]\<rparr>
     = Invalid \<and>
   ConcatenateAxes \<lparr>DType = InvalidDType, AxisLengths = [2]\<rparr> \<lparr>DType = InvalidDType, AxisLengths = [4]\<rparr>
     = Invalid"
  using ConcatenateAxes_contract [of "\<lparr>DType = Float32, AxisLengths = [2, 3]\<rparr>" "\<lparr>DType = Float32, AxisLengths = [4]\<rparr>"]
    ConcatenateAxes_contract [of "\<lparr>DType = Float32, AxisLengths = []\<rparr>" "\<lparr>DType = Float32, AxisLengths = [4]\<rparr>"]
    ConcatenateAxes_contract [of "\<lparr>DType = Float32, AxisLengths = [2, 3]\<rparr>" "\<lparr>DType = Float32, AxisLengths = []\<rparr>"]
    ConcatenateAxes_contract [of "\<lparr>DType = Float32, AxisLengths = [2, 3]\<rparr>" "\<lparr>DType = Int32, AxisLengths = [4]\<rparr>"]
    ConcatenateAxes_contract [of "\<lparr>DType = InvalidDType, AxisLengths = [2]\<rparr>" "\<lparr>DType = InvalidDType, AxisLengths = [4]\<rparr>"]
  by (simp add: Ok_def IsScalar_def NumAxes_def Clone_def)

section \<open>Iteration over an invalid array type\<close>

text \<open>Claim C10.  For an array type whose element kind is invalid, full and partial iteration
  yield no pair, at every rank: \<open>Iter\<close> ends at once; so do \<open>IterOn\<close> and \<open>IterOnAxes\<close> when
  the buffers they are given have one entry per axis, and with other buffers they panic before
  any pair is yielded.\<close>

theorem invalid_yields_nothing:
  "\<not> Ok at \<Longrightarrow>
     Iter at fuel = Inr ([], True) \<and>
     yielded (IterOn at indices fuel) = [] \<and>
     (length indices = NumAxes at \<longrightarrow> IterOn at indices fuel = Inr ([], True)) \<and>
     yielded (IterOnAxes at axesToIterate strides indices' fuel) = [] \<and>
     ((\<forall>s. strides = Some s \<longrightarrow> length s = NumAxes at) \<and>
      (\<forall>i. indices' = Some i \<longrightarrow> length i = NumAxes at) \<longrightarrow>
        IterOnAxes at axesToIterate strides indices' fuel = Inr ([], True))"
  by (auto simp: Iter_def IterOn_def IterOnAxes_def IterOnAxes_seq_def yielded_def Let_def
      split: option.splits)

text \<open>At rank 0 and at rank 2; the valid scalar, for comparison, yields its one pair.\<close>

theorem invalid_yields_nothing_witness:
  "\<not> Ok \<lparr>DType = InvalidDType, AxisLengths = []\<rparr> \<and>
   Iter \<lparr>DType = InvalidDType, AxisLengths = []\<rparr> 5 = Inr ([], True) \<and>
   IterOnAxes \<lparr>DType = InvalidDType, AxisLengths = []\<rparr> [] None None 5 = Inr ([], True) \<and>
   Iter \<lparr>DType = Float32, AxisLengths = []\<rparr> 5 = Inr ([(0, [])], True) \<and>
   \<not> Ok \<lparr>DType = InvalidDType, AxisLengths = [2, 3]\<rparr> \<and>
   Iter \<lparr>DType = InvalidDType, AxisLengths = [2, 3]\<rparr> 7 = Inr ([], True) \<and>
   IterOnAxes \<lparr>DType = InvalidDType, AxisLengths = [2, 3]\<rparr> [0] None (Some [0, 1]) 7 = Inr ([], True)"
  using invalid_yields_nothing [of "\<lparr>DType = InvalidDType, AxisLengths = []\<rparr>" 5 "[]" "[]" None None]
    invalid_yields_nothing [of "\<lparr>DType = InvalidDType, AxisLengths = [2, 3]\<rparr>" 7 "[0, 0]" "[0]" None "Some [0, 1]"]
  by (simp add: Ok_def NumAxes_def Iter_def IterOn_def)

section \<open>Axis validation in partial iteration\<close>

lemma reset_axes_invalid:
  "\<forall>axis \<in> set pre. 0 \<le> axis \<and> axis < int numAxes \<and> 0 < lens ! nat axis \<Longrightarrow>
   bad < 0 \<or> int numAxes \<le> bad \<Longrightarrow>
   reset_axes lens numAxes (pre @ bad # post) indices = Inl (Panic (InvalidAxis bad numAxes))"
  by (induction pre arbitrary: indices) auto

text \<open>Claim C6, as the code has it.  For a valid array type of rank at least 1 and buffers
  with one entry per axis (or none given), if \<open>axesToIterate\<close> has an entry outside
  \<open>0 \<le> axis < rank\<close> and every entry before the first such entry names an axis of positive
  length, then partial iteration panics with the out-of-range error for that entry and yields
  no pair.\<close>

theorem IterOnAxes_invalid_axis:
  assumes "Ok at" and "0 < NumAxes at"
    and "\<forall>s. strides = Some s \<longrightarrow> length s = NumAxes at"
    and "\<forall>i. indices = Some i \<longrightarrow> length i = NumAxes at"
    and "axesToIterate = pre @ bad # post"
    and "\<forall>axis \<in> set pre. 0 \<le> axis \<and> axis < int (NumAxes at) \<and> 0 < AxisLengths at ! nat axis"
    and "bad < 0 \<or> int (NumAxes at) \<le> bad"
  shows "IterOnAxes at axesToIterate strides indices fuel = Inl (Panic (InvalidAxis bad (NumAxes at))) \<and>
         yielded (IterOnAxes at axesToIterate strides indices fuel) = []"
  using assms reset_axes_invalid [of pre "NumAxes at" "AxisLengths at" bad post]
  by (auto simp: IterOnAxes_def IterOnAxes_seq_def yielded_def Let_def split: option.splits)

theorem IterOnAxes_invalid_axis_witness:
  "IterOnAxes \<lparr>DType = Float32, AxisLengths = [2, 3, 4]\<rparr> [0, 3, 1] None (Some [0, 1, 0]) 9
     = Inl (Panic (InvalidAxis 3 3)) \<and>
   IterOnAxes \<lparr>DType = Float32, AxisLengths = [2, 3, 4]\<rparr> [-1] None None 9
     = Inl (Panic (InvalidAxis (-1) 3))"
  using IterOnAxes_invalid_axis [of "\<lparr>DType = Float32, AxisLengths = [2, 3, 4]\<rparr>" None "Some [0, 1, 0]" "[0, 3, 1]" "[0]" 3 "[1]" 9]
    IterOnAxes_invalid_axis [of "\<lparr>DType = Float32, AxisLengths = [2, 3, 4]\<rparr>" None None "[-1]" "[]" "-1" "[]" 9]
  by (simp add: Ok_def NumAxes_def)

text \<open>Claim C6 as stated includes rank 0 and every list with an out-of-range entry.  On the
  scalar \<open>Make(Float32)\<close> with \<open>axesToIterate = [0]\<close> nothing fails and one pair is yielded;
  on \<open>Make(Float32, 0, 3)\<close> with \<open>axesToIterate = [0, 5]\<close> the iteration ends at the axis of
  length 0 before the entry 5 is looked at.\<close>

theorem IterOnAxes_invalid_axis_counterexample:
  "IterOnAxes \<lparr>DType = Float32, AxisLengths = []\<rparr> [0] None None 1 = Inr ([(0, [])], True) \<and>
   IterOnAxes \<lparr>DType = Float32, AxisLengths = [0, 3]\<rparr> [0, 5] None None 1 = Inr ([], True)"
  by (simp add: IterOnAxes_def IterOnAxes_seq_def NumAxes_def Ok_def Strides_def IsZeroSize_def)

section \<open>Properties of full iteration\<close>

subsection \<open>Flat indices of coordinate vectors\<close>

lemma in_range_nth:
  "in_range lens indices \<longleftrightarrow>
     length indices = length lens \<and> (\<forall>a < length lens. 0 \<le> indices ! a \<and> indices ! a < lens ! a)"
  by (auto simp: in_range_def list_all2_conv_all_nth)

lemma foldl_flat_acc:
  "foldl (\<lambda>acc (len, i). acc * len + i) a (zip lens indices)
     = a * prod_list (take (length indices) lens) + flat_index lens indices"
  unfolding flat_index_def
proof (induction lens arbitrary: a indices)
  case Nil
  then show ?case by simp
next
  case (Cons l ls)
  show ?case
  proof (cases indices)
    case Nil
    then show ?thesis by simp
  next
    case (Cons i ks)
    show ?thesis
      unfolding Cons using Cons.IH [of "a * l + i" ks] Cons.IH [of i ks]
      by (simp add: algebra_simps)
  qed
qed

lemma flat_index_Nil [simp]: "flat_index [] indices = 0" "flat_index lens [] = 0"
  by (simp_all add: flat_index_def)

lemma flat_index_Cons:
  "length indices = length lens \<Longrightarrow>
   flat_index (len # lens) (i # indices) = i * prod_list lens + flat_index lens indices"
  using foldl_flat_acc [of i lens indices] by (simp add: flat_index_def)

lemma flat_index_snoc:
  "length indices = length lens \<Longrightarrow>
   flat_index (lens @ [len]) (indices @ [i]) = flat_index lens indices * len + i"
  by (simp add: flat_index_def)

lemma flat_index_take_Suc:
  assumes "n < length lens" "length indices = length lens"
  shows "flat_index (take (Suc n) lens) (take (Suc n) indices)
       = flat_index (take n lens) (take n indices) * lens ! n + indices ! n"
  using assms by (simp add: take_Suc_conv_app_nth flat_index_snoc)

lemma in_range_bounds:
  "in_range lens indices \<Longrightarrow> 0 \<le> flat_index lens indices \<and> flat_index lens indices < prod_list lens"
  unfolding in_range_def
proof (induction rule: list_all2_induct)
  case Nil
  then show ?case by simp
next
  case (Cons l ls i ks)
  let ?P = "prod_list ls" and ?F = "flat_index ls ks"
  from Cons have len: "length ks = length ls" by (simp add: list_all2_lengthD)
  from Cons have F: "0 \<le> ?F" "?F < ?P" by simp_all
  from Cons have i: "0 \<le> i" "i + 1 \<le> l" by simp_all
  have "0 \<le> i * ?P" using i F by simp
  moreover have "(i + 1) * ?P \<le> l * ?P" using i F by (intro mult_right_mono) simp_all
  ultimately show ?case using F by (simp add: flat_index_Cons len algebra_simps)
qed

lemma flat_index_inj:
  "in_range lens xs \<Longrightarrow> in_range lens ys \<Longrightarrow> flat_index lens xs = flat_index lens ys \<Longrightarrow> xs = ys"
proof (induction lens arbitrary: xs ys)
  case Nil
  then show ?case by (simp add: in_range_def)
next
  case (Cons l ls)
  from Cons.prems obtain i ks where xs: "xs = i # ks" "0 \<le> i" "i < l" "in_range ls ks"
    by (auto simp: in_range_def list_all2_Cons1)
  from Cons.prems obtain j js where ys: "ys = j # js" "0 \<le> j" "j < l" "in_range ls js"
    by (auto simp: in_range_def list_all2_Cons1)
  let ?P = "prod_list ls"
  have lens: "length ks = length ls" "length js = length ls"
    using xs ys by (simp_all add: in_range_nth)
  have bi: "0 \<le> flat_index ls ks" "flat_index ls ks < ?P"
    and bj: "0 \<le> flat_index ls js" "flat_index ls js < ?P"
    using in_range_bounds xs ys by blast+
  have eq: "i * ?P + flat_index ls ks = j * ?P + flat_index ls js"
    using Cons.prems(3) by (simp add: xs ys flat_index_Cons lens)
  have "(i * ?P + flat_index ls ks) div ?P = i" "(j * ?P + flat_index ls js) div ?P = j"
    using bi bj by simp_all
  with eq have "i = j" by simp
  with eq have "flat_index ls ks = flat_index ls js" by simp
  with Cons.IH xs ys \<open>i = j\<close> show ?case by simp
qed


subsection \<open>The increment loops\<close>

lemma in_range_update:
  "in_range lens indices \<Longrightarrow> 0 \<le> v \<Longrightarrow> v < lens ! n \<Longrightarrow> in_range lens (indices[n := v])"
  unfolding in_range_nth
proof (intro conjI allI impI)
  fix a
  assume "length indices = length lens \<and> (\<forall>a<length lens. 0 \<le> indices ! a \<and> indices ! a < lens ! a)"
    and "0 \<le> v" "v < lens ! n" "a < length lens"
  then show "0 \<le> indices[n := v] ! a" "indices[n := v] ! a < lens ! a"
    by (cases "a = n"; simp)+
qed simp

text \<open>One pass of the dense inner loop from axis \<open>n - 1\<close> downwards: the coordinates from \<open>n\<close>
  on are untouched; on \<open>continue\<close> the coordinates below \<open>n\<close> are the successor of what they
  were, on \<open>break\<close> they were the last tuple.\<close>

lemma v2_increment_step:
  assumes "in_range lens indices" "n \<le> length lens" "v2_increment lens n indices = (ok, indices')"
    and "\<forall>len \<in> set lens. len < 2 ^ 63"
  shows "in_range lens indices' \<and> (\<forall>a. n \<le> a \<longrightarrow> indices' ! a = indices ! a) \<and>
         (ok \<longrightarrow> flat_index (take n lens) (take n indices')
                 = flat_index (take n lens) (take n indices) + 1) \<and>
         (\<not> ok \<longrightarrow> flat_index (take n lens) (take n indices) + 1 = prod_list (take n lens))"
  using assms
proof (induction n arbitrary: indices ok indices')
  case 0
  then show ?case by simp
next
  case (Suc n)
  from Suc.prems have n: "n < length lens" and len: "length indices = length lens"
    and rng: "0 \<le> indices ! n" "indices ! n < lens ! n"
    by (simp_all add: in_range_nth)
  note ts = flat_index_take_Suc [OF n]
  have prod: "prod_list (take (Suc n) lens) = prod_list (take n lens) * lens ! n"
    using n by (simp add: take_Suc_conv_app_nth)
  have "lens ! n < 2 ^ 63" using Suc.prems(4) n by simp
  with rng have w: "wrap64 (indices ! n + 1) = indices ! n + 1"
    by (intro wrap64_id) simp_all
  show ?case
  proof (cases "lens ! n = 1")
    case True
    with Suc.prems have call: "v2_increment lens n indices = (ok, indices')" by simp
    from Suc.IH [OF Suc.prems(1) _ call Suc.prems(4)] n
    have ih: "in_range lens indices'" "\<forall>a. n \<le> a \<longrightarrow> indices' ! a = indices ! a"
      "ok \<longrightarrow> flat_index (take n lens) (take n indices') = flat_index (take n lens) (take n indices) + 1"
      "\<not> ok \<longrightarrow> flat_index (take n lens) (take n indices) + 1 = prod_list (take n lens)"
      by simp_all
    have len': "length indices' = length lens" using ih(1) by (simp add: in_range_nth)
    have z: "indices ! n = 0" using True rng by simp
    with ih(2) have "indices' ! n = 0" by simp
    with ih True z show ?thesis
      by (simp add: ts len len' prod)
  next
    case False
    show ?thesis
    proof (cases "indices ! n + 1 < lens ! n")
      case True
      with False Suc.prems len n have res: "ok" "indices' = indices[n := indices ! n + 1]"
        by (simp_all add: Let_def w)
      have "in_range lens indices'"
        unfolding res using Suc.prems(1) True rng by (intro in_range_update) simp_all
      moreover have "take n indices' = take n indices" by (simp add: res)
      moreover have "indices' ! n = indices ! n + 1" using len n by (simp add: res)
      ultimately show ?thesis
        using res(1) len n by (simp add: ts res(2))
    next
      case over: False
      then have last: "indices ! n + 1 = lens ! n" using rng by simp
      let ?r = "indices[n := 0]"
      from False over Suc.prems len n have call: "v2_increment lens n ?r = (ok, indices')"
        by (simp add: Let_def w)
      have r: "in_range lens ?r"
        using Suc.prems(1) rng by (intro in_range_update) simp_all
      from Suc.IH [OF r _ call Suc.prems(4)] n
      have ih: "in_range lens indices'" "\<forall>a. n \<le> a \<longrightarrow> indices' ! a = ?r ! a"
        "ok \<longrightarrow> flat_index (take n lens) (take n indices') = flat_index (take n lens) (take n ?r) + 1"
        "\<not> ok \<longrightarrow> flat_index (take n lens) (take n ?r) + 1 = prod_list (take n lens)"
        by simp_all
      have len': "length indices' = length lens" using ih(1) by (simp add: in_range_nth)
      from ih(2) len n have zero: "indices' ! n = 0" by simp
      from ih(2) have rest: "\<forall>a. Suc n \<le> a \<longrightarrow> indices' ! a = indices ! a" by simp
      have tk: "take n ?r = take n indices" by simp
      have L: "lens ! n = indices ! n + 1" using last by simp
      show ?thesis
      proof (intro conjI impI)
        show "in_range lens indices'" by (rule ih(1))
        show "\<forall>a. Suc n \<le> a \<longrightarrow> indices' ! a = indices ! a" by (rule rest)
      next
        assume ok
        with ih(3) have "flat_index (take n lens) (take n indices')
            = flat_index (take n lens) (take n indices) + 1" by (simp add: tk)
        then show "flat_index (take (Suc n) lens) (take (Suc n) indices')
            = flat_index (take (Suc n) lens) (take (Suc n) indices) + 1"
          by (simp add: ts len len' zero L algebra_simps)
      next
        assume "\<not> ok"
        with ih(4) have "prod_list (take n lens)
            = flat_index (take n lens) (take n indices) + 1" by (simp add: tk)
        then show "flat_index (take (Suc n) lens) (take (Suc n) indices) + 1
            = prod_list (take (Suc n) lens)"
          by (simp add: ts len prod L algebra_simps)
      qed
    qed
  qed
qed

lemma v3_increment_eq_v2:
  "\<forall>a < n. 1 \<le> lens ! a \<Longrightarrow> n \<le> length lens \<Longrightarrow>
   v3_increment lens (rev (filter (\<lambda>axis. lens ! axis > 1) [0..<n])) indices
     = v2_increment lens n indices"
proof (induction n arbitrary: indices)
  case 0
  then show ?case by simp
next
  case (Suc n)
  then have "1 \<le> lens ! n" by simp
  then have "lens ! n = 1 \<longleftrightarrow> \<not> 1 < lens ! n" by auto
  with Suc show ?case by (simp add: Let_def)
qed

lemma v3Yielder_eq_v2Yielder:
  "\<forall>len \<in> set lens. 1 \<le> len \<Longrightarrow>
   v3Yielder lens (spatialAxes lens) fuel flatIdx indices = v2Yielder lens fuel flatIdx indices"
proof (induction fuel arbitrary: flatIdx indices)
  case 0
  then show ?case by simp
next
  case (Suc fuel)
  have "v3_increment lens (spatialAxes lens) indices = v2_increment lens (length lens) indices"
    unfolding spatialAxes_def using Suc.prems by (intro v3_increment_eq_v2) simp_all
  with Suc show ?case by (simp split: prod.splits bool.splits)
qed

subsection \<open>The outer loops\<close>

lemma member_le_prod_list:
  "\<forall>len \<in> set xs. 1 \<le> len \<Longrightarrow> x \<in> set xs \<Longrightarrow> x \<le> prod_list (xs :: int list)"
proof (induction xs)
  case Nil
  then show ?case by simp
next
  case (Cons y ys)
  then have y: "1 \<le> y" and p: "1 \<le> prod_list ys" by (simp_all add: prod_list_ge1)
  have a: "y \<le> y * prod_list ys"
    using mult_left_mono [of 1 "prod_list ys" y] y p by simp
  have b: "prod_list ys \<le> y * prod_list ys"
    using mult_right_mono [of 1 y "prod_list ys"] y p by simp
  show ?case
  proof (cases "x = y")
    case True
    with a show ?thesis by simp
  next
    case False
    with Cons have "x \<le> prod_list ys" by simp
    with b show ?thesis by simp
  qed
qed

lemma in_range_small:
  assumes "in_range lens indices" "prod_list lens < 2 ^ 63"
  shows "\<forall>len \<in> set lens. len < 2 ^ 63"
proof -
  have pos: "\<forall>len \<in> set lens. 1 \<le> len"
  proof
    fix len assume "len \<in> set lens"
    then obtain a where "a < length lens" "lens ! a = len" by (auto simp: in_set_conv_nth)
    with assms(1) have "0 \<le> indices ! a" "indices ! a < len" by (auto simp: in_range_nth)
    then show "1 \<le> len" by simp
  qed
  show ?thesis
  proof
    fix len assume "len \<in> set lens"
    with member_le_prod_list [OF pos] have "len \<le> prod_list lens" by simp
    with assms(2) show "len < 2 ^ 63" by simp
  qed
qed

lemma v2Yielder_run:
  assumes "in_range lens indices" "flat_index lens indices = k" "nat (prod_list lens - k) \<le> fuel"
    and "prod_list lens < 2 ^ 63"
  shows "\<exists>pairs. v2Yielder lens fuel k indices = (pairs, True) \<and>
           map fst pairs = [k..prod_list lens - 1] \<and>
           (\<forall>p \<in> set pairs. in_range lens (snd p)) \<and>
           map (\<lambda>p. flat_index lens (snd p)) pairs = [k..prod_list lens - 1]"
  using assms
proof (induction fuel arbitrary: k indices)
  case 0
  with in_range_bounds [of lens indices] show ?case by simp
next
  case (Suc fuel)
  have len: "length indices = length lens" using Suc.prems(1) by (simp add: in_range_nth)
  have bound: "k < prod_list lens" using in_range_bounds [OF Suc.prems(1)] Suc.prems(2) by simp
  obtain ok indices' where inc: "v2_increment lens (length lens) indices = (ok, indices')"
    by (cases "v2_increment lens (length lens) indices")
  from v2_increment_step [OF Suc.prems(1) _ inc in_range_small [OF Suc.prems(1,4)]]
  have step: "in_range lens indices'"
    "ok \<longrightarrow> flat_index lens (take (length lens) indices') = k + 1"
    "\<not> ok \<longrightarrow> k + 1 = prod_list lens"
    using len Suc.prems(2) by simp_all
  have len': "length indices' = length lens" using step(1) by (simp add: in_range_nth)
  show ?case
  proof (cases ok)
    case True
    with step len' have flat': "flat_index lens indices' = k + 1" by simp
    from Suc.prems(3) have "nat (prod_list lens - (k + 1)) \<le> fuel" by simp
    have k0: "0 \<le> k" using in_range_bounds [OF Suc.prems(1)] Suc.prems(2) by simp
    with bound Suc.prems(4) have w: "wrap64 (k + 1) = k + 1" by (intro wrap64_id) simp_all
    from Suc.IH [OF step(1) flat' \<open>nat (prod_list lens - (k + 1)) \<le> fuel\<close> Suc.prems(4)]
    obtain pairs where
      run: "v2Yielder lens fuel (k + 1) indices' = (pairs, True)"
      "map fst pairs = [k + 1..prod_list lens - 1]"
      "\<forall>p \<in> set pairs. in_range lens (snd p)"
      "map (\<lambda>p. flat_index lens (snd p)) pairs = [k + 1..prod_list lens - 1]"
      by blast
    have up: "[k..prod_list lens - 1] = k # [k + 1..prod_list lens - 1]"
      using bound by (simp add: upto_rec1)
    from run inc True Suc.prems(1,2) show ?thesis by (simp add: up w)
  next
    case False
    with step have "k + 1 = prod_list lens" by simp
    then have "[k..prod_list lens - 1] = [k]" by (simp add: upto_rec1)
    with inc False Suc.prems(1,2) show ?thesis by simp
  qed
qed

subsection \<open>The reference enumeration\<close>

lemma row_major_in_range: "e \<in> set (row_major lens) \<Longrightarrow> in_range lens e"
  by (auto simp: row_major_def product_lists_set in_range_def list_all2_conv_all_nth)

lemma row_major_length: "e \<in> set (row_major lens) \<Longrightarrow> length e = length lens"
  using row_major_in_range [of e lens] by (simp add: in_range_nth)

lemma map_add_upto: "map (\<lambda>j. c + j) [a..b] = [c + a..c + b]"
  by (rule nth_equalityI) simp_all

lemma concat_blocks:
  assumes "0 \<le> P"
  shows "concat (map (\<lambda>x. map (\<lambda>j. x * P + j) [0..P - 1]) [0..int n - 1]) = [0..int n * P - 1]"
proof (cases "P = 0")
  case True
  then show ?thesis by simp
next
  case False
  with assms have P: "1 \<le> P" by simp
  show ?thesis
  proof (induction n)
    case 0
    then show ?case by simp
  next
    case (Suc n)
    have "[0..int (Suc n) - 1] = [0..int n - 1] @ [int n]"
      using upto_rec2 [of 0 "int n"] by simp
    moreover have "[0..int (Suc n) * P - 1] = [0..int n * P - 1] @ [int n * P..int n * P + (P - 1)]"
      using upto_split1 [of 0 "int n * P" "int (Suc n) * P - 1"] P by (simp add: algebra_simps)
    ultimately show ?case using Suc by (simp add: map_add_upto)
  qed
qed

lemma prod_list_nonneg: "\<forall>len \<in> set lens. 0 \<le> len \<Longrightarrow> 0 \<le> prod_list (lens :: int list)"
  by (induction lens) simp_all

lemma row_major_flat:
  "\<forall>len \<in> set lens. 0 \<le> len \<Longrightarrow> map (flat_index lens) (row_major lens) = [0..prod_list lens - 1]"
proof (induction lens)
  case Nil
  then show ?case by (simp add: row_major_def)
next
  case (Cons l ls)
  let ?P = "prod_list ls"
  have P: "0 \<le> ?P" using Cons.prems by (simp add: prod_list_nonneg)
  have l: "l = int (nat l)" using Cons.prems by simp
  have rm: "row_major (l # ls) = concat (map (\<lambda>x. map (Cons x) (row_major ls)) [0..l - 1])"
    by (simp add: row_major_def)
  have inner: "map (\<lambda>e. flat_index (l # ls) (x # e)) (row_major ls)
             = map (\<lambda>j. x * ?P + j) [0..?P - 1]" for x
  proof -
    have "map (\<lambda>e. flat_index (l # ls) (x # e)) (row_major ls)
        = map (\<lambda>e. x * ?P + flat_index ls e) (row_major ls)"
      by (simp add: flat_index_Cons row_major_length)
    also have "\<dots> = map (\<lambda>j. x * ?P + j) (map (flat_index ls) (row_major ls))"
      by simp
    finally show ?thesis using Cons by simp
  qed
  have "map (flat_index (l # ls)) (row_major (l # ls))
      = concat (map (\<lambda>x. map (\<lambda>j. x * ?P + j) [0..?P - 1]) [0..l - 1])"
    unfolding rm by (simp add: map_concat inner comp_def)
  also have "\<dots> = [0..l * ?P - 1]"
    using concat_blocks [OF P, of "nat l"] l by simp
  finally show ?case by simp
qed

lemma row_major_unique:
  assumes "\<forall>len \<in> set lens. 0 \<le> len"
    and "\<forall>c \<in> set cs. in_range lens c"
    and "map (flat_index lens) cs = [0..prod_list lens - 1]"
  shows "cs = row_major lens"
proof -
  have "inj_on (flat_index lens) (set cs \<union> set (row_major lens))"
    using assms(2) row_major_in_range by (intro inj_onI flat_index_inj [of lens]) auto
  moreover have "map (flat_index lens) cs = map (flat_index lens) (row_major lens)"
    using assms(1,3) by (simp add: row_major_flat)
  ultimately show ?thesis by (simp add: inj_on_map_eq_map)
qed


subsection \<open>The whole iteration\<close>

lemma count_non_trivial_eq:
  "count_non_trivial lens c =
     (if \<exists>len \<in> set lens. len \<le> 0 then None
      else Some (c + length (filter (\<lambda>len. 1 < len) lens)))"
  by (induction lens arbitrary: c) auto

lemma flat_index_zeros: "flat_index lens (replicate n 0) = 0"
proof -
  have "foldl (\<lambda>acc (len, i). acc * len + i) 0 (zip lens (replicate n (0::int))) = 0"
  proof (induction lens arbitrary: n)
    case Nil
    then show ?case by simp
  next
    case (Cons l ls)
    then show ?case by (cases n) simp_all
  qed
  then show ?thesis by (simp add: flat_index_def)
qed

lemma in_range_zeros: "\<forall>len \<in> set lens. 1 \<le> len \<Longrightarrow> in_range lens (replicate (length lens) 0)"
  unfolding in_range_nth by (simp add: all_set_conv_all_nth) force

lemma row_major_ones:
  "\<forall>len \<in> set lens. len = 1 \<Longrightarrow> row_major lens = [replicate (length lens) 0]"
  by (induction lens) (simp_all add: row_major_def)

lemma prod_list_ones: "\<forall>len \<in> set lens. len = 1 \<Longrightarrow> prod_list (lens :: int list) = 1"
  by (induction lens) simp_all

lemma row_major_size:
  "\<forall>len \<in> set lens. 0 \<le> len \<Longrightarrow> length (row_major lens) = nat (prod_list lens)"
  using arg_cong [OF row_major_flat, of lens length] by simp

lemma v2Yielder_full:
  assumes "\<forall>len \<in> set lens. 1 \<le> len" "nat (prod_list lens) \<le> fuel"
    and "prod_list lens < 2 ^ 63"
  shows "v2Yielder lens fuel 0 (replicate (length lens) 0)
       = (zip [0..prod_list lens - 1] (row_major lens), True)"
proof -
  have nonneg: "\<forall>len \<in> set lens. 0 \<le> len" using assms(1) by force
  from v2Yielder_run [OF in_range_zeros [OF assms(1)] flat_index_zeros _ assms(3), of fuel] assms(2)
  obtain pairs where
    run: "v2Yielder lens fuel 0 (replicate (length lens) 0) = (pairs, True)"
    "map fst pairs = [0..prod_list lens - 1]"
    "\<forall>p \<in> set pairs. in_range lens (snd p)"
    "map (\<lambda>p. flat_index lens (snd p)) pairs = [0..prod_list lens - 1]"
    by auto
  have "map snd pairs = row_major lens"
    using run(3,4) by (intro row_major_unique [OF nonneg]) (simp_all add: comp_def)
  with run(2) have "pairs = zip [0..prod_list lens - 1] (row_major lens)"
    using zip_map_fst_snd [of pairs] by simp
  with run(1) show ?thesis by simp
qed

lemma IterOn_full:
  assumes "Ok at" "length indices = NumAxes at" "NumAxes at \<noteq> 0"
    and "\<forall>len \<in> set (AxisLengths at). 1 \<le> len" "nat (Size at) \<le> fuel"
    and "prod_list (AxisLengths at) < 2 ^ 63"
  shows "IterOn at indices fuel
       = Inr (zip [0..Size at - 1] (row_major (AxisLengths at)), True)"
proof -
  let ?lens = "AxisLengths at"
  have zeros: "map (\<lambda>_. 0) indices = replicate (length ?lens) (0::int)"
    using assms(2) by (simp add: NumAxes_def map_replicate_const)
  have no_bad: "\<not> (\<exists>len \<in> set ?lens. len \<le> 0)" using assms(4) by force
  have size: "Size at = prod_list ?lens"
    using prod_list_ge1 [OF assms(4)] assms(6) by (intro Size_prod_list) simp_all
  have v2: "v2Yielder ?lens fuel 0 (replicate (length ?lens) 0)
          = (zip [0..Size at - 1] (row_major ?lens), True)"
    using v2Yielder_full [OF assms(4) _ assms(6), of fuel] assms(5) by (simp add: size)
  have v3: "v3Yielder ?lens (spatialAxes ?lens) fuel 0 (replicate (length ?lens) 0)
          = (zip [0..Size at - 1] (row_major ?lens), True)"
    using v2 v3Yielder_eq_v2Yielder [OF assms(4)] by simp
  show ?thesis
  proof (cases "filter (\<lambda>len. 1 < len) ?lens = []")
    case True
    then have ones: "\<forall>len \<in> set ?lens. len = 1"
      using assms(4) by (force simp: filter_empty_conv)
    then have "prod_list ?lens = 1" by (rule prod_list_ones)
    with ones True assms(1,2,3) no_bad show ?thesis
      by (simp add: IterOn_def count_non_trivial_eq zeros row_major_ones size)
  next
    case False
    with assms(1,2,3) no_bad show ?thesis
      by (simp add: IterOn_def count_non_trivial_eq zeros v2 v3 Let_def)
  qed
qed

text \<open>Claim C1, as the code has it.  For a valid array type (its axis lengths non-negative, as
  \<open>Make\<close> has checked): at rank 0 \<open>Iter\<close> yields exactly the pair \<open>(0, [])\<close>; if some axis has
  length 0 it yields nothing; otherwise, if the product of the axis lengths is below \<open>2^63\<close>,
  then \<open>Size\<close> is this product and \<open>Iter\<close>, run to its end (fuel for \<open>Size\<close> passes is enough),
  yields exactly \<open>Size\<close> pairs, whose flat indices are \<open>0, 1, ..., Size - 1\<close> in this order and
  whose coordinate vectors are the row-major enumeration of the Cartesian product of the axis
  ranges, the last axis varying fastest.\<close>

theorem Iter_row_major:
  assumes "Ok at" and "\<forall>len \<in> set (AxisLengths at). 0 \<le> len"
  shows "(NumAxes at = 0 \<longrightarrow> Iter at fuel = Inr ([(0, [])], True)) \<and>
         (IsZeroSize at \<longrightarrow> Iter at fuel = Inr ([], True)) \<and>
         (NumAxes at \<noteq> 0 \<and> \<not> IsZeroSize at \<and> prod_list (AxisLengths at) < 2 ^ 63 \<and>
          nat (Size at) \<le> fuel \<longrightarrow>
            Iter at fuel = Inr (zip [0..Size at - 1] (row_major (AxisLengths at)), True) \<and>
            length (row_major (AxisLengths at)) = nat (Size at) \<and>
            Size at = prod_list (AxisLengths at))"
proof (intro conjI impI)
  assume "NumAxes at = 0"
  with assms(1) show "Iter at fuel = Inr ([(0, [])], True)"
    by (simp add: Iter_def IterOn_def)
next
  assume "IsZeroSize at"
  then have "\<exists>len \<in> set (AxisLengths at). len \<le> 0" "NumAxes at \<noteq> 0"
    by (auto simp: IsZeroSize_def list_ex_iff NumAxes_def)
  with assms(1) show "Iter at fuel = Inr ([], True)"
    by (simp add: Iter_def IterOn_def count_non_trivial_eq)
next
  assume a: "NumAxes at \<noteq> 0 \<and> \<not> IsZeroSize at \<and> prod_list (AxisLengths at) < 2 ^ 63 \<and>
          nat (Size at) \<le> fuel"
  have pos: "\<forall>len \<in> set (AxisLengths at). 1 \<le> len"
  proof
    fix len assume "len \<in> set (AxisLengths at)"
    with a assms(2) have "0 \<le> len" "len \<noteq> 0"
      by (auto simp: IsZeroSize_def list_ex_iff)
    then show "1 \<le> len" by simp
  qed
  from a IterOn_full [OF assms(1) _ _ pos, of "replicate (NumAxes at) 0" fuel]
  show "Iter at fuel = Inr (zip [0..Size at - 1] (row_major (AxisLengths at)), True)"
    by (simp add: Iter_def)
  show size: "Size at = prod_list (AxisLengths at)"
    using prod_list_ge1 [OF pos] a by (intro Size_prod_list) simp_all
  show "length (row_major (AxisLengths at)) = nat (Size at)"
    using assms(2) by (simp add: row_major_size size)
qed

text \<open>The \<open>3 \<times> 2\<close> array of the test suite, a scalar and an empty array.\<close>

theorem Iter_row_major_witness:
  "Iter \<lparr>DType = Float64, AxisLengths = [3, 2]\<rparr> 6
     = Inr ([(0, [0, 0]), (1, [0, 1]), (2, [1, 0]), (3, [1, 1]), (4, [2, 0]), (5, [2, 1])], True) \<and>
   Iter \<lparr>DType = Float64, AxisLengths = []\<rparr> 0 = Inr ([(0, [])], True) \<and>
   Iter \<lparr>DType = Float64, AxisLengths = [3, 0]\<rparr> 0 = Inr ([], True)"
proof -
  let ?at = "\<lparr>DType = Float64, AxisLengths = [3, 2]\<rparr>"
  have ok: "Ok ?at" "Ok \<lparr>DType = Float64, AxisLengths = []\<rparr>" "Ok \<lparr>DType = Float64, AxisLengths = [3, 0]\<rparr>"
    by (simp_all add: Ok_def)
  have size: "Size ?at = 6"
    by (simp add: Size_def wrap64_def)
  have rm: "zip [0..6 - 1] (row_major (AxisLengths ?at))
      = [(0, [0, 0]), (1, [0, 1]), (2, [1, 0]), (3, [1, 1]), (4, [2, 0]), (5, [2, 1])]"
    by (simp add: row_major_def upto.simps)
  from Iter_row_major [OF ok(1), of 6] Iter_row_major [OF ok(2), of 0] Iter_row_major [OF ok(3), of 0]
  show ?thesis
    unfolding size rm by (simp add: NumAxes_def IsZeroSize_def)
qed

text \<open>Claim C1 as stated counts the pairs by \<open>size()\<close> for every valid array type.  For
  \<open>Make(Float32, 1<<32, 1<<32)\<close> no axis has length 0 and the product \<open>2^64\<close> wraps, so
  \<open>size()\<close> is 0; yet the iteration yields pairs, the first of them \<open>(0, [0, 0])\<close>.\<close>

theorem Iter_overflow_counterexample:
  "Ok \<lparr>DType = Float32, AxisLengths = [4294967296, 4294967296]\<rparr> \<and>
   \<not> IsZeroSize \<lparr>DType = Float32, AxisLengths = [4294967296, 4294967296]\<rparr> \<and>
   Size \<lparr>DType = Float32, AxisLengths = [4294967296, 4294967296]\<rparr> = 0 \<and>
   Iter \<lparr>DType = Float32, AxisLengths = [4294967296, 4294967296]\<rparr> 1
     = Inr ([(0, [0, 0])], False)"
  by (simp add: Ok_def IsZeroSize_def Size_def Iter_def IterOn_def NumAxes_def spatialAxes_def
      wrap64_def eval_nat_numeral)

text \<open>Claim C2.  For every list of axis lengths that are all at least 1 (one of them being
  greater than 1 is not even needed), the dense loop (Version 2) and the sparse loop (Version 3,
  over the reversed list of non-trivial axes) yield the same pairs and end alike, from every
  starting flat index and coordinate buffer and for every amount of fuel.\<close>

theorem dense_sparse_identical:
  assumes "\<forall>len \<in> set lens. 1 \<le> len"
  shows "v3Yielder lens (spatialAxes lens) fuel flatIdx indices = v2Yielder lens fuel flatIdx indices"
  using assms by (rule v3Yielder_eq_v2Yielder)

text \<open>The array type \<open>(BFloat16)[3 1 2 1]\<close> of the test suite under both strategies.\<close>

theorem dense_sparse_identical_witness:
  "v2Yielder [3, 1, 2, 1] 6 0 [0, 0, 0, 0]
     = ([(0, [0, 0, 0, 0]), (1, [0, 0, 1, 0]), (2, [1, 0, 0, 0]),
         (3, [1, 0, 1, 0]), (4, [2, 0, 0, 0]), (5, [2, 0, 1, 0])], True) \<and>
   v3Yielder [3, 1, 2, 1] (spatialAxes [3, 1, 2, 1]) 6 0 [0, 0, 0, 0]
     = ([(0, [0, 0, 0, 0]), (1, [0, 0, 1, 0]), (2, [1, 0, 0, 0]),
         (3, [1, 0, 1, 0]), (4, [2, 0, 0, 0]), (5, [2, 0, 1, 0])], True)"
proof -
  have v2: "v2Yielder [3, 1, 2, 1] 6 0 [0, 0, 0, 0]
     = ([(0, [0, 0, 0, 0]), (1, [0, 0, 1, 0]), (2, [1, 0, 0, 0]),
         (3, [1, 0, 1, 0]), (4, [2, 0, 0, 0]), (5, [2, 0, 1, 0])], True)"
    by code_simp
  from dense_sparse_identical [of "[3, 1, 2, 1]" 6 0 "[0, 0, 0, 0]"] v2 show ?thesis by simp
qed

section \<open>Properties of partial iteration\<close>

lemma dot_Nil [simp]: "dot [] strides = 0" "dot indices [] = 0"
  by (simp_all add: dot_def)

lemma dot_Cons [simp]: "dot (i # indices) (s # strides) = i * s + dot indices strides"
  by (simp add: dot_def)

lemma dot_update:
  "a < length indices \<Longrightarrow> length strides = length indices \<Longrightarrow>
   dot (indices[a := v]) strides = dot indices strides + (v - indices ! a) * strides ! a"
proof (induction indices arbitrary: a strides)
  case Nil
  then show ?case by simp
next
  case (Cons i ks)
  then obtain s ss where strides: "strides = s # ss" by (cases strides) auto
  show ?case
  proof (cases a)
    case 0
    then show ?thesis by (simp add: strides algebra_simps)
  next
    case (Suc b)
    with Cons.prems Cons.IH [of b ss] show ?thesis by (simp add: strides)
  qed
qed

lemma dot_sum: "length strides = length indices \<Longrightarrow>
  dot indices strides = (\<Sum>a = 0..<length indices. indices ! a * strides ! a)"
  by (simp add: dot_def sum_list_sum_nth)

lemma initial_flatIdx_dot:
  assumes "length indices = numAxes" "length strides = numAxes"
  shows "initial_flatIdx numAxes indices strides = wrap64 (dot indices strides)"
proof -
  have "foldl (\<lambda>flatIdx axis. wrap64 (flatIdx + wrap64 (g axis))) 0 [0..<n]
      = wrap64 (\<Sum>a = 0..<n. g a)"
    for g :: "nat \<Rightarrow> int" and n
    by (induction n) (simp_all add: add.commute)
  then show ?thesis using assms by (simp add: initial_flatIdx_def dot_sum)
qed

text \<open>One pass of the inner loop keeps the flat index equal to the wrapped dot product: each
  increment adds the stride, each reset takes away the coordinate times the stride.\<close>

lemma wrap64_increment:
  "wrap64 (wrap64 D + s) = wrap64 (D + (wrap64 (i + 1) - i) * s)"
proof -
  have "wrap64 (wrap64 (i + 1) - i) = 1"
    using wrap64_diff_left [of "i + 1" i] by simp
  then have "wrap64 ((wrap64 (i + 1) - i) * s) = wrap64 s"
    using wrap64_mult_left [of "wrap64 (i + 1) - i" s] by simp
  then show ?thesis
    by (metis wrap64_add_left wrap64_add_right)
qed

lemma axes_increment_dot:
  assumes "\<forall>axis \<in> set axesToIterate. 0 \<le> axis \<and> axis < int (length indices)"
    and "length strides = length indices" "k \<le> length axesToIterate"
    and "flatIdx = wrap64 (dot indices strides)"
    and "axes_increment lens strides axesToIterate k flatIdx indices = (ok, flatIdx', indices')"
  shows "flatIdx' = wrap64 (dot indices' strides) \<and> length indices' = length indices"
  using assms
proof (induction k arbitrary: flatIdx indices)
  case 0
  then show ?case by auto
next
  case (Suc k)
  let ?axis = "nat (axesToIterate ! k)"
  let ?indices1 = "indices[?axis := wrap64 (indices ! ?axis + 1)]"
  let ?flatIdx1 = "wrap64 (flatIdx + strides ! ?axis)"
  from Suc.prems(3) have "axesToIterate ! k \<in> set axesToIterate" by simp
  with Suc.prems(1) have "0 \<le> axesToIterate ! k \<and> axesToIterate ! k < int (length indices)"
    by blast
  then have axis: "?axis < length indices" by (simp add: nat_less_iff)
  have f1: "?flatIdx1 = wrap64 (dot ?indices1 strides)"
    using axis Suc.prems(2,4) wrap64_increment [of "dot indices strides" "strides ! ?axis" "indices ! ?axis"]
    by (simp add: dot_update)
  show ?case
  proof (cases "?indices1 ! ?axis < lens ! ?axis")
    case True
    with Suc.prems(5) f1 show ?thesis by (auto simp: Let_def)
  next
    case False
    let ?indices2 = "?indices1[?axis := 0]"
    let ?flatIdx2 = "wrap64 (?flatIdx1 - wrap64 (?indices1 ! ?axis * strides ! ?axis))"
    from False Suc.prems(5)
    have call: "axes_increment lens strides axesToIterate k ?flatIdx2 ?indices2 = (ok, flatIdx', indices')"
      by (simp add: Let_def)
    have "dot ?indices2 strides = dot ?indices1 strides - ?indices1 ! ?axis * strides ! ?axis"
      using axis Suc.prems(2) dot_update [of ?axis ?indices1 strides 0]
      by (simp add: algebra_simps)
    moreover have "?flatIdx2 = wrap64 (dot ?indices1 strides - ?indices1 ! ?axis * strides ! ?axis)"
      unfolding f1 by simp
    ultimately have f2: "?flatIdx2 = wrap64 (dot ?indices2 strides)" by simp
    from Suc.IH [OF _ _ _ f2 call] Suc.prems(1,2,3) show ?thesis by simp
  qed
qed

lemma axesYielder_dot:
  assumes "\<forall>axis \<in> set axesToIterate. 0 \<le> axis \<and> axis < int (length indices)"
    and "length strides = length indices" "flatIdx = wrap64 (dot indices strides)"
    and "(f, c) \<in> set (fst (axesYielder lens strides axesToIterate fuel flatIdx indices))"
  shows "f = wrap64 (dot c strides)"
  using assms
proof (induction fuel arbitrary: flatIdx indices)
  case 0
  then show ?case by simp
next
  case (Suc fuel)
  obtain ok flatIdx' indices' where inc:
    "axes_increment lens strides axesToIterate (length axesToIterate) flatIdx indices = (ok, flatIdx', indices')"
    by (cases "axes_increment lens strides axesToIterate (length axesToIterate) flatIdx indices") auto
  from axes_increment_dot [OF Suc.prems(1,2) _ Suc.prems(3) inc]
  have inv: "flatIdx' = wrap64 (dot indices' strides)" "length indices' = length indices" by simp_all
  show ?case
  proof (cases ok)
    case True
    with inc Suc.prems(4)
    have "(f, c) = (flatIdx, indices) \<or>
          (f, c) \<in> set (fst (axesYielder lens strides axesToIterate fuel flatIdx' indices'))"
      by (auto split: prod.splits)
    then show ?thesis
    proof
      assume "(f, c) = (flatIdx, indices)"
      with Suc.prems(3) show ?thesis by simp
    next
      assume "(f, c) \<in> set (fst (axesYielder lens strides axesToIterate fuel flatIdx' indices'))"
      with Suc.IH [of indices' flatIdx'] Suc.prems(1,2) inv show ?thesis by simp
    qed
  next
    case False
    with inc Suc.prems(3,4) show ?thesis by simp
  qed
qed

text \<open>With an axis listed twice the iteration can come back to a state it has left: on one axis
  of length 2 listed twice, the state with coordinate 1 is followed by itself, and no amount of
  fuel ends the loop.\<close>

lemma axes_twice_step: "axes_increment [2] [1] [0, 0] (length [0, 0 :: int]) 1 [1] = (True, 1, [1])"
  by (simp add: eval_nat_numeral wrap64_def)

lemma axes_twice_never_ends: "snd (axesYielder [2] [1] [0, 0] fuel 1 [1]) = False"
  by (induction fuel) (auto simp: axes_twice_step [simplified] wrap64_def split: prod.splits)

lemma reset_axes_Some:
  "reset_axes lens numAxes axesToIterate indices = Inr (Some indices0) \<Longrightarrow>
   (\<forall>axis \<in> set axesToIterate. 0 \<le> axis \<and> axis < int numAxes) \<and> length indices0 = length indices"
  by (induction axesToIterate arbitrary: indices) (auto split: if_splits)

lemma yielded_Inr: "yielded (Inr run) = fst run"
  by (simp add: yielded_def split: prod.splits)

lemma IterOnAxes_seq_dot:
  assumes "length strides = NumAxes at" "length indices = NumAxes at"
    and "(f, c) \<in> set (yielded (IterOnAxes_seq at axesToIterate strides indices fuel))"
  shows "f = wrap64 (dot c strides)"
proof (cases "\<not> Ok at \<or> NumAxes at = 0")
  case True
  with assms show ?thesis
    by (auto simp: IterOnAxes_seq_def yielded_def split: if_splits)
next
  case False
  then have valid: "Ok at" "NumAxes at \<noteq> 0" by simp_all
  show ?thesis
  proof (cases "reset_axes (AxisLengths at) (NumAxes at) axesToIterate indices")
    case (Inl p)
    with assms(3) valid show ?thesis by (simp add: IterOnAxes_seq_def yielded_def)
  next
    case (Inr r)
    show ?thesis
    proof (cases r)
      case None
      with assms(3) valid Inr show ?thesis by (simp add: IterOnAxes_seq_def yielded_def)
    next
      case (Some indices0)
      from reset_axes_Some [OF Inr [unfolded Some]] assms(2)
      have ok: "\<forall>axis \<in> set axesToIterate. 0 \<le> axis \<and> axis < int (length indices0)"
        and l0: "length indices0 = NumAxes at" by simp_all
      have ls: "length strides = length indices0" using assms(1) l0 by simp
      have init: "initial_flatIdx (NumAxes at) indices0 strides = wrap64 (dot indices0 strides)"
        using l0 assms(1) by (rule initial_flatIdx_dot)
      from assms(3) valid Inr Some
      have "(f, c) \<in> set (fst (axesYielder (AxisLengths at) strides axesToIterate fuel
                               (initial_flatIdx (NumAxes at) indices0 strides) indices0))"
        by (simp add: IterOnAxes_seq_def yielded_Inr)
      with ok ls init show ?thesis by (rule axesYielder_dot)
    qed
  qed
qed

text \<open>Claim C3, as the code has it.  Every pair that \<open>IterOnAxes\<close> yields has as its flat index
  the dot product of the yielded coordinate vector (fixed and iterated axes together) with the
  strides in use (the ones supplied, or \<open>Strides\<close> of the array type), brought into the 64-bit
  range by wrap-around; so it is the dot product itself whenever that lies in the range from
  \<open>-2^63\<close> to \<open>2^63 - 1\<close>.  The loop only adds a stride on each increment and takes away the
  coordinate times the stride on each reset.  This holds for every input and every amount of
  fuel; an iteration that panics yields nothing.\<close>

theorem IterOnAxes_flat_index:
  "\<forall>(flatIdx, coordinates) \<in> set (yielded (IterOnAxes at axesToIterate strides indices fuel)).
     flatIdx = wrap64 (dot coordinates (case strides of None \<Rightarrow> Strides at | Some s \<Rightarrow> s)) \<and>
     (- (2 ^ 63) \<le> dot coordinates (case strides of None \<Rightarrow> Strides at | Some s \<Rightarrow> s) \<and>
      dot coordinates (case strides of None \<Rightarrow> Strides at | Some s \<Rightarrow> s) < 2 ^ 63 \<longrightarrow>
        flatIdx = dot coordinates (case strides of None \<Rightarrow> Strides at | Some s \<Rightarrow> s))"
proof (cases "(\<forall>s. strides = Some s \<longrightarrow> length s = NumAxes at) \<and>
              (\<forall>i. indices = Some i \<longrightarrow> length i = NumAxes at)")
  case False
  then have "yielded (IterOnAxes at axesToIterate strides indices fuel) = []"
    by (auto simp: IterOnAxes_def yielded_def Let_def split: option.splits)
  then show ?thesis by simp
next
  case True
  let ?strides = "case strides of None \<Rightarrow> Strides at | Some s \<Rightarrow> s"
  let ?indices = "case indices of None \<Rightarrow> replicate (NumAxes at) 0 | Some i \<Rightarrow> i"
  from True have ls: "length ?strides = NumAxes at"
    by (simp add: Strides_length split: option.splits)
  from True have li: "length ?indices = NumAxes at"
    by (simp split: option.splits)
  from True have seq: "IterOnAxes at axesToIterate strides indices fuel
      = IterOnAxes_seq at axesToIterate ?strides ?indices fuel"
    by (simp add: IterOnAxes_def Let_def split: option.splits)
  have eq: "f = wrap64 (dot c ?strides)"
    if "(f, c) \<in> set (yielded (IterOnAxes at axesToIterate strides indices fuel))" for f c
    using that IterOnAxes_seq_dot [OF ls li, of f c axesToIterate fuel] by (simp add: seq)
  show ?thesis
  proof (intro ballI)
    fix p assume p: "p \<in> set (yielded (IterOnAxes at axesToIterate strides indices fuel))"
    obtain f c where fc: "p = (f, c)" by (cases p)
    from eq [of f c] p have "f = wrap64 (dot c ?strides)" by (simp add: fc)
    then show "case p of (flatIdx, coordinates) \<Rightarrow>
        flatIdx = wrap64 (dot coordinates ?strides) \<and>
        (- (2 ^ 63) \<le> dot coordinates ?strides \<and> dot coordinates ?strides < 2 ^ 63 \<longrightarrow>
           flatIdx = dot coordinates ?strides)"
      using wrap64_id [of "dot c ?strides"] by (simp add: fc)
  qed
qed

text \<open>The example of the documentation and of the test suite: axes 0 and 2 of \<open>(Float32)[2 3 4]\<close>
  with axis 1 held at 1 yield the flat indices 4, 5, 6, 7, 16, 17, 18, 19.\<close>

theorem IterOnAxes_flat_index_witness:
  "IterOnAxes \<lparr>DType = Float32, AxisLengths = [2, 3, 4]\<rparr> [0, 2] None (Some [0, 1, 0]) 8
     = Inr ([(4, [0, 1, 0]), (5, [0, 1, 1]), (6, [0, 1, 2]), (7, [0, 1, 3]),
             (16, [1, 1, 0]), (17, [1, 1, 1]), (18, [1, 1, 2]), (19, [1, 1, 3])], True) \<and>
   Strides \<lparr>DType = Float32, AxisLengths = [2, 3, 4]\<rparr> = [12, 4, 1] \<and>
   dot [1, 1, 3] [12, 4, 1] = 19"
proof -
  let ?at = "\<lparr>DType = Float32, AxisLengths = [2, 3, 4]\<rparr>"
  have strides: "Strides ?at = [12, 4, 1]"
    by (simp add: Strides_def NumAxes_def IsZeroSize_def Let_def eval_nat_numeral wrap64_def)
  have seq: "IterOnAxes ?at [0, 2] None (Some [0, 1, 0]) 8
      = IterOnAxes_seq ?at [0, 2] [12, 4, 1] [0, 1, 0] 8"
    by (simp add: IterOnAxes_def strides NumAxes_def)
  have start: "IterOnAxes_seq ?at [0, 2] [12, 4, 1] [0, 1, 0] 8
      = Inr (axesYielder [2, 3, 4] [12, 4, 1] [0, 2] 8 4 [0, 1, 0])"
    by (simp add: IterOnAxes_seq_def NumAxes_def Ok_def initial_flatIdx_def eval_nat_numeral
        wrap64_def)
  have loop: "axesYielder [2, 3, 4] [12, 4, 1] [0, 2] 8 4 [0, 1, 0]
      = ([(4, [0, 1, 0]), (5, [0, 1, 1]), (6, [0, 1, 2]), (7, [0, 1, 3]),
          (16, [1, 1, 0]), (17, [1, 1, 1]), (18, [1, 1, 2]), (19, [1, 1, 3])], True)"
    by (simp add: eval_nat_numeral Let_def wrap64_def)
  note run = seq [unfolded start loop]
  have "(19, [1, 1, 3]) \<in> set (yielded (IterOnAxes ?at [0, 2] None (Some [0, 1, 0]) 8))"
    unfolding run by (simp add: yielded_Inr)
  with IterOnAxes_flat_index [of ?at "[0, 2]" None "Some [0, 1, 0]" 8]
  have "- (2 ^ 63) \<le> dot [1, 1, 3] (Strides ?at) \<and> dot [1, 1, 3] (Strides ?at) < 2 ^ 63
        \<longrightarrow> dot [1, 1, 3] (Strides ?at) = 19"
    by fastforce
  then have "dot [1, 1, 3] [12, 4, 1] = 19" unfolding strides by simp
  with run strides show ?thesis by (intro conjI)
qed

text \<open>Claim C3 as stated equates the flat index with the dot product itself.  On
  \<open>(Float32)[4]\<close> with the supplied stride \<open>1<<62\<close> the third pair has the coordinate 2 and the
  flat index \<open>-2^63\<close>, while the dot product is \<open>2^63\<close>.\<close>

theorem IterOnAxes_overflow_counterexample:
  "IterOnAxes \<lparr>DType = Float32, AxisLengths = [4]\<rparr> [0] (Some [4611686018427387904]) None 3
     = Inr ([(0, [0]), (4611686018427387904, [1]), (- 9223372036854775808, [2])], False) \<and>
   dot [2] [4611686018427387904] = 9223372036854775808"
  by (simp add: IterOnAxes_def IterOnAxes_seq_def NumAxes_def Ok_def initial_flatIdx_def
      Let_def eval_nat_numeral wrap64_def)

section \<open>Properties of shape inference\<close>

lemma Equal_iff: "Equal a b \<longleftrightarrow> a = b" for a b :: ArrayType
  by (cases a; cases b) (auto simp: Equal_def NumAxes_def IsScalar_def)

lemma Clone_id [simp]: "Clone a = a" for a :: ArrayType
  by (simp add: Clone_def)

text \<open>The loop over the siblings succeeds exactly when each of them, inferred from the prefix,
  gives the array type of the first element.\<close>

lemma siblings_None:
  "siblings F prefix at vs = (at', None) \<longleftrightarrow>
     at' = at \<and> (\<forall>v \<in> set vs. arrayTypeForAnyValueRecursive F prefix v = (at, None))"
  by (induction vs) (auto simp: Equal_iff split: prod.splits option.splits)

lemma siblings_Some:
  "siblings F prefix at vs = (at', Some e) \<Longrightarrow>
     \<exists>v \<in> set vs.
       (\<exists>test. arrayTypeForAnyValueRecursive F prefix v = (test, Some e)) \<or>
       (\<exists>test. arrayTypeForAnyValueRecursive F prefix v = (test, None) \<and> test \<noteq> at \<and>
               e = IrregularSubSlices at test)"
  by (induction vs) (auto simp: Equal_iff split: prod.splits option.splits if_splits)

lemma infer_regular:
  "reduces_to F v d dims \<Longrightarrow>
   arrayTypeForAnyValueRecursive F at v = (\<lparr>DType = d, AxisLengths = AxisLengths at @ dims\<rparr>, None)"
proof (induction v arbitrary: at dims)
  case (Leaf t)
  then show ?case by simp
next
  case (Slice vs)
  from Slice.prems obtain n ds where dims: "dims = n # ds" "vs \<noteq> []" "n = int (length vs)"
    and elems: "\<forall>v \<in> set vs. reduces_to F v d ds"
    by (auto split: list.splits)
  from dims obtain v0 rest where vs: "vs = v0 # rest" by (cases vs) auto
  let ?at1 = "at\<lparr>AxisLengths := AxisLengths at @ [n]\<rparr>"
  let ?at2 = "\<lparr>DType = d, AxisLengths = AxisLengths at @ dims\<rparr>"
  have each: "arrayTypeForAnyValueRecursive F ?at1 v = (?at2, None)" if "v \<in> set vs" for v
    using Slice.IH [OF that, of ds ?at1] elems that by (simp add: dims)
  then have "siblings F ?at1 ?at2 rest = (?at2, None)"
    by (simp add: siblings_None vs)
  with each [of v0] show ?case
    using dims(3) by (simp add: vs)
qed

lemma infer_success:
  "arrayTypeForAnyValueRecursive F at v = (at', None) \<Longrightarrow>
   \<exists>dims. reduces_to F v (DType at') dims \<and> AxisLengths at' = AxisLengths at @ dims"
proof (induction v arbitrary: at at')
  case (Leaf t)
  then show ?case by (auto simp: Let_def split: if_splits)
next
  case (Slice vs)
  show ?case
  proof (cases vs)
    case Nil
    with Slice.prems show ?thesis by simp
  next
    case (Cons v0 rest)
    let ?n = "int (length vs)"
    let ?at1 = "at\<lparr>AxisLengths := AxisLengths at @ [?n]\<rparr>"
    from Slice.prems obtain at2 where
      first: "arrayTypeForAnyValueRecursive F ?at1 v0 = (at2, None)"
      and sib: "siblings F ?at1 at2 rest = (at', None)"
      by (auto simp: Cons Let_def split: prod.splits option.splits)
    from sib have at': "at' = at2"
      and others: "\<forall>v \<in> set rest. arrayTypeForAnyValueRecursive F ?at1 v = (at2, None)"
      by (simp_all add: siblings_None)
    from first others have each: "arrayTypeForAnyValueRecursive F ?at1 v = (at2, None)"
      if "v \<in> set vs" for v using that by (auto simp: Cons)
    from Slice.IH [OF _ each [of v0]] obtain ds where
      ds: "reduces_to F v0 (DType at2) ds" "AxisLengths at2 = AxisLengths ?at1 @ ds"
      by (auto simp: Cons)
    have "reduces_to F v (DType at2) ds" if "v \<in> set vs" for v
    proof -
      from Slice.IH [OF that each [OF that]] obtain ds' where
        "reduces_to F v (DType at2) ds'" "AxisLengths at2 = AxisLengths ?at1 @ ds'" by auto
      with ds(2) show ?thesis by simp
    qed
    then have "reduces_to F (Slice vs) (DType at') (?n # ds)"
      by (simp add: at' Cons)
    moreover have "AxisLengths at' = AxisLengths at @ ?n # ds"
      using ds(2) by (simp add: at')
    ultimately show ?thesis by blast
  qed
qed

lemma reduces_to_no_empty: "reduces_to F v d dims \<Longrightarrow> \<not> has_empty v"
  by (induction v arbitrary: dims) (auto split: list.splits)

lemma reduces_to_unique:
  assumes "reduces_to F v d dims" "reduces_to F v d' dims'"
  shows "d = d' \<and> dims = dims'"
  using infer_regular [OF assms(1), of Invalid] infer_regular [OF assms(2), of Invalid]
  by simp

lemma FromAnyValue_success:
  "FromAnyValue F v = (a, None) \<longleftrightarrow> reduces_to F v (DType a) (AxisLengths a)"
proof
  assume "FromAnyValue F v = (a, None)"
  from infer_success [OF this [unfolded FromAnyValue_def]]
  show "reduces_to F v (DType a) (AxisLengths a)" by simp
next
  assume "reduces_to F v (DType a) (AxisLengths a)"
  from infer_regular [OF this, of "\<lparr>DType = InvalidDType, AxisLengths = []\<rparr>"]
  show "FromAnyValue F v = (a, None)" by (simp add: FromAnyValue_def)
qed

lemma has_mismatch_Slice:
  "has_mismatch F (Slice vs) \<longleftrightarrow>
     (\<exists>v \<in> set vs. has_mismatch F v) \<or>
     (\<exists>u \<in> set vs. \<exists>w \<in> set vs. \<exists>a b.
        FromAnyValue F u = (a, None) \<and> FromAnyValue F w = (b, None) \<and> a \<noteq> b)"
  for F :: "'t \<Rightarrow> DType"
proof -
  have "(case (x, y) of ((a, None), (b, None)) \<Rightarrow> a \<noteq> b | _ \<Rightarrow> False)
      = (\<exists>a b. x = (a, None) \<and> y = (b, None) \<and> a \<noteq> b)"
    for x y :: "ArrayType \<times> 't infer_error option"
    by (auto split: prod.splits option.splits)
  then show ?thesis by simp
qed

lemma has_mismatch_irregular: "has_mismatch F v \<Longrightarrow> \<not> reduces_to F v d dims"
proof (induction v arbitrary: dims)
  case (Leaf t)
  then show ?case by simp
next
  case (Slice vs)
  show ?case
  proof
    assume "reduces_to F (Slice vs) d dims"
    then obtain n ds where elems: "\<forall>v \<in> set vs. reduces_to F v d ds"
      by (auto split: list.splits)
    from Slice.prems consider
      (inner) v where "v \<in> set vs" "has_mismatch F v"
      | (here) u w a b where "u \<in> set vs" "w \<in> set vs"
          "FromAnyValue F u = (a, None)" "FromAnyValue F w = (b, None)" "a \<noteq> b"
      unfolding has_mismatch_Slice by blast
    then show False
    proof cases
      case inner
      with Slice.IH elems show False by blast
    next
      case here
      then have "reduces_to F u (DType a) (AxisLengths a)" "reduces_to F w (DType b) (AxisLengths b)"
        by (simp_all add: FromAnyValue_success)
      with elems here(1,2) have "DType a = d \<and> AxisLengths a = ds" "DType b = d \<and> AxisLengths b = ds"
        using reduces_to_unique by blast+
      with here(5) show False by simp
    qed
  qed
qed

lemma infer_failure:
  "arrayTypeForAnyValueRecursive F at v = (at', Some e) \<Longrightarrow>
     (\<exists>t \<in> set_go_value v. e = UnsupportedType t \<and> F t = InvalidDType) \<or>
     (e = EmptySlice \<and> has_empty v) \<or>
     (\<exists>a b. e = IrregularSubSlices a b \<and> a \<noteq> b)"
proof (induction v arbitrary: at at' e)
  case (Leaf t)
  then show ?case by (auto simp: Let_def split: if_splits)
next
  case (Slice vs)
  show ?case
  proof (cases vs)
    case Nil
    with Slice.prems show ?thesis by simp
  next
    case (Cons v0 rest)
    let ?at1 = "at\<lparr>AxisLengths := AxisLengths at @ [int (length vs)]\<rparr>"
    from Slice.prems consider
      (first) at2 where "arrayTypeForAnyValueRecursive F ?at1 v0 = (at2, Some e)"
      | (later) at2 where "siblings F ?at1 at2 rest = (at', Some e)"
      by (auto simp: Cons Let_def split: prod.splits option.splits)
    then show ?thesis
    proof cases
      case first
      from Slice.IH [OF _ first] show ?thesis by (auto simp: Cons)
    next
      case later
      from siblings_Some [OF later] obtain v test where v: "v \<in> set rest"
        and alt: "arrayTypeForAnyValueRecursive F ?at1 v = (test, Some e) \<or>
             (arrayTypeForAnyValueRecursive F ?at1 v = (test, None) \<and> test \<noteq> at2 \<and>
              e = IrregularSubSlices at2 test)"
        by blast
      from alt show ?thesis
      proof
        assume "arrayTypeForAnyValueRecursive F ?at1 v = (test, Some e)"
        from Slice.IH [OF _ this] v show ?thesis by (auto simp: Cons)
      next
        assume "arrayTypeForAnyValueRecursive F ?at1 v = (test, None) \<and> test \<noteq> at2 \<and>
              e = IrregularSubSlices at2 test"
        then show ?thesis by auto
      qed
    qed
  qed
qed


text \<open>When the inference fails on a value without empty sequences and with scalars of a
  supported type, the failure is the mismatch of a first element \<open>u\<close> and a later sibling \<open>w\<close>,
  and the two array types reported are what \<open>u\<close> and \<open>w\<close> reduce to, each behind the lengths of
  the enclosing sequences.\<close>

lemma infer_mismatch:
  assumes "arrayTypeForAnyValueRecursive F at v = (at', Some e)"
    and "\<not> has_empty v" "\<forall>t \<in> set_go_value v. F t \<noteq> InvalidDType"
  shows "\<exists>pre u w a b. (pre, u, w) \<in> set (sibling_pairs v) \<and>
           FromAnyValue F u = (a, None) \<and> FromAnyValue F w = (b, None) \<and> a \<noteq> b \<and>
           e = IrregularSubSlices
                 \<lparr>DType = DType a, AxisLengths = AxisLengths at @ pre @ AxisLengths a\<rparr>
                 \<lparr>DType = DType b, AxisLengths = AxisLengths at @ pre @ AxisLengths b\<rparr>"
  using assms
proof (induction v arbitrary: at at' e)
  case (Leaf t)
  then show ?case by (auto simp: Let_def split: if_splits)
next
  case (Slice vs)
  from Slice.prems(2) obtain v0 rest where vs: "vs = v0 # rest" by (cases vs) auto
  let ?n = "int (length vs)"
  let ?at1 = "at\<lparr>AxisLengths := AxisLengths at @ [?n]\<rparr>"
  have inner: ?case
    if v: "v \<in> set vs" and fail: "arrayTypeForAnyValueRecursive F ?at1 v = (x, Some e)" for v x
  proof -
    from v Slice.prems(2,3) have "\<not> has_empty v" "\<forall>t \<in> set_go_value v. F t \<noteq> InvalidDType"
      by auto
    from Slice.IH [OF v fail this] obtain pre u w a b where
      m: "(pre, u, w) \<in> set (sibling_pairs v)"
      "FromAnyValue F u = (a, None)" "FromAnyValue F w = (b, None)" "a \<noteq> b"
      "e = IrregularSubSlices
             \<lparr>DType = DType a, AxisLengths = AxisLengths ?at1 @ pre @ AxisLengths a\<rparr>
             \<lparr>DType = DType b, AxisLengths = AxisLengths ?at1 @ pre @ AxisLengths b\<rparr>"
      by blast
    from m(1) v have "(?n # pre, u, w) \<in> set (sibling_pairs (Slice vs))"
      by (force simp: vs)
    with m(2-5) show ?thesis by (intro exI [of _ "?n # pre"] exI [of _ u] exI [of _ w]
          exI [of _ a] exI [of _ b]) simp
  qed
  from Slice.prems(1) consider
    (first) at2 where "arrayTypeForAnyValueRecursive F ?at1 v0 = (at2, Some e)"
    | (later) at2 where "arrayTypeForAnyValueRecursive F ?at1 v0 = (at2, None)"
        "siblings F ?at1 at2 rest = (at', Some e)"
    by (auto simp: vs Let_def split: prod.splits option.splits)
  then show ?case
  proof cases
    case first
    then show ?thesis by (intro inner [of v0]) (simp_all add: vs)
  next
    case later
    from siblings_Some [OF later(2)] obtain w test where w: "w \<in> set rest"
      and alt: "arrayTypeForAnyValueRecursive F ?at1 w = (test, Some e) \<or>
           (arrayTypeForAnyValueRecursive F ?at1 w = (test, None) \<and> test \<noteq> at2 \<and>
            e = IrregularSubSlices at2 test)"
      by blast
    from alt show ?thesis
    proof
      assume "arrayTypeForAnyValueRecursive F ?at1 w = (test, Some e)"
      with w show ?thesis by (intro inner [of w]) (simp_all add: vs)
    next
      assume mis: "arrayTypeForAnyValueRecursive F ?at1 w = (test, None) \<and> test \<noteq> at2 \<and>
            e = IrregularSubSlices at2 test"
      from infer_success [OF later(1)] obtain ds0 where
        a: "reduces_to F v0 (DType at2) ds0" "AxisLengths at2 = AxisLengths ?at1 @ ds0" by blast
      from mis infer_success [of F ?at1 w test] obtain dsw where
        b: "reduces_to F w (DType test) dsw" "AxisLengths test = AxisLengths ?at1 @ dsw" by blast
      let ?a = "\<lparr>DType = DType at2, AxisLengths = ds0\<rparr>"
      let ?b = "\<lparr>DType = DType test, AxisLengths = dsw\<rparr>"
      have ra: "FromAnyValue F v0 = (?a, None)" and rb: "FromAnyValue F w = (?b, None)"
        using a(1) b(1) by (simp_all add: FromAnyValue_success)
      have at2: "at2 = \<lparr>DType = DType ?a, AxisLengths = AxisLengths at @ [?n] @ AxisLengths ?a\<rparr>"
        and test: "test = \<lparr>DType = DType ?b, AxisLengths = AxisLengths at @ [?n] @ AxisLengths ?b\<rparr>"
        using a(2) b(2) by simp_all
      from mis have "?a \<noteq> ?b" using at2 test by auto
      moreover from w have "([?n], v0, w) \<in> set (sibling_pairs (Slice vs))"
        by (simp add: vs)
      moreover from mis have "e = IrregularSubSlices
             \<lparr>DType = DType ?a, AxisLengths = AxisLengths at @ [?n] @ AxisLengths ?a\<rparr>
             \<lparr>DType = DType ?b, AxisLengths = AxisLengths at @ [?n] @ AxisLengths ?b\<rparr>"
        using at2 test by simp
      ultimately show ?thesis using ra rb by blast
    qed
  qed
qed

text \<open>Claim C9, as the code has it.  On a regularly nested value \<open>FromAnyValue\<close> returns exactly
  the expected array type.  A value that contains an empty sequence at any nesting level fails
  with an error, and so does a value that contains sibling sub-sequences that reduce to
  different array types.  For the latter, when the value contains no empty sequence and all its
  scalars are of a supported type, the error is the shape-mismatch error, and it reports both
  conflicting array types: there are the first element \<open>u\<close> and a later element \<open>w\<close> of one
  sequence of the value that reduce to different array types \<open>a\<close> and \<open>b\<close>, and the error
  carries \<open>a\<close> and \<open>b\<close>, each with the lengths of the enclosing sequences put before its
  axes.\<close>

theorem FromAnyValue_contract:
  "(reduces_to F v d dims \<longrightarrow> FromAnyValue F v = (\<lparr>DType = d, AxisLengths = dims\<rparr>, None)) \<and>
   (has_empty v \<longrightarrow> (\<exists>e. snd (FromAnyValue F v) = Some e)) \<and>
   (has_mismatch F v \<longrightarrow> (\<exists>e. snd (FromAnyValue F v) = Some e)) \<and>
   (has_mismatch F v \<and> \<not> has_empty v \<and> (\<forall>t \<in> set_go_value v. F t \<noteq> InvalidDType) \<longrightarrow>
      (\<exists>pre u w a b. (pre, u, w) \<in> set (sibling_pairs v) \<and>
         FromAnyValue F u = (a, None) \<and> FromAnyValue F w = (b, None) \<and> \<not> Equal a b \<and>
         snd (FromAnyValue F v) =
           Some (IrregularSubSlices \<lparr>DType = DType a, AxisLengths = pre @ AxisLengths a\<rparr>
                                    \<lparr>DType = DType b, AxisLengths = pre @ AxisLengths b\<rparr>)))"
proof -
  obtain a r where res: "FromAnyValue F v = (a, r)" by (cases "FromAnyValue F v")
  have regular: "FromAnyValue F v = (\<lparr>DType = d, AxisLengths = dims\<rparr>, None)"
    if "reduces_to F v d dims"
    using infer_regular [OF that, of "\<lparr>DType = InvalidDType, AxisLengths = []\<rparr>"]
    by (simp add: FromAnyValue_def)
  have fails: "\<exists>e. r = Some e" if "has_empty v \<or> has_mismatch F v"
  proof (cases r)
    case None
    with res have "reduces_to F v (DType a) (AxisLengths a)" by (simp add: FromAnyValue_success)
    with that reduces_to_no_empty has_mismatch_irregular show ?thesis by blast
  next
    case (Some e)
    then show ?thesis by simp
  qed
  have mismatch: "\<exists>pre u w a b. (pre, u, w) \<in> set (sibling_pairs v) \<and>
         FromAnyValue F u = (a, None) \<and> FromAnyValue F w = (b, None) \<and> \<not> Equal a b \<and>
         r = Some (IrregularSubSlices \<lparr>DType = DType a, AxisLengths = pre @ AxisLengths a\<rparr>
                                      \<lparr>DType = DType b, AxisLengths = pre @ AxisLengths b\<rparr>)"
    if "has_mismatch F v" "\<not> has_empty v" "\<forall>t \<in> set_go_value v. F t \<noteq> InvalidDType"
  proof -
    from fails that(1) obtain e where e: "r = Some e" by blast
    from infer_mismatch [OF res [unfolded FromAnyValue_def e] that(2,3)]
    show ?thesis by (simp add: e Equal_iff)
  qed
  from regular fails mismatch show ?thesis by (simp add: res)
qed

text \<open>The values of the test suite (\<open>[]int32{1, 2, 3}\<close>, a \<open>[][][]complex64\<close> of shape
  \<open>1 \<times> 2 \<times> 3\<close>, the irregular \<open>[][]float32{{1, 2, 3}, {4, 5}}\<close>) and a value with an empty
  sequence.  A leaf carries the element kind of its Go type.\<close>

theorem FromAnyValue_contract_witness:
  "FromAnyValue id (Slice [Leaf Int32, Leaf Int32, Leaf Int32])
     = (\<lparr>DType = Int32, AxisLengths = [3]\<rparr>, None) \<and>
   FromAnyValue id (Slice [Slice [Slice [Leaf Complex64, Leaf Complex64, Leaf Complex64],
                                 Slice [Leaf Complex64, Leaf Complex64, Leaf Complex64]]])
     = (\<lparr>DType = Complex64, AxisLengths = [1, 2, 3]\<rparr>, None) \<and>
   snd (FromAnyValue id (Slice [Slice [Leaf Float32, Leaf Float32, Leaf Float32],
                                Slice [Leaf Float32, Leaf Float32]]))
     = Some (IrregularSubSlices \<lparr>DType = Float32, AxisLengths = [2, 3]\<rparr>
               \<lparr>DType = Float32, AxisLengths = [2, 2]\<rparr>) \<and>
   snd (FromAnyValue id (Slice [Slice [Leaf Float32], Slice []])) = Some EmptySlice"
  using FromAnyValue_contract [of id "Slice [Leaf Int32, Leaf Int32, Leaf Int32]" Int32 "[3]"]
    FromAnyValue_contract [of id
      "Slice [Slice [Slice [Leaf Complex64, Leaf Complex64, Leaf Complex64],
                     Slice [Leaf Complex64, Leaf Complex64, Leaf Complex64]]]" Complex64 "[1, 2, 3]"]
    FromAnyValue_contract [of id
      "Slice [Slice [Leaf Float32, Leaf Float32, Leaf Float32], Slice [Leaf Float32, Leaf Float32]]"]
    FromAnyValue_contract [of id "Slice [Slice [Leaf Float32], Slice []]"]
  by (simp add: FromAnyValue_def Equal_def NumAxes_def IsScalar_def Ok_def)

text \<open>Claim C9 as stated promises the shape-mismatch error for every value with mismatching
  siblings.  In \<open>[][][]int32{{{}}, {{1}, {2, 3}}}\<close> the siblings \<open>{1}\<close> and \<open>{2, 3}\<close> reduce to
  \<open>(Int32)[1]\<close> and \<open>(Int32)[2]\<close>, but the inference meets the empty sequence first and fails
  with the empty-sequence error.\<close>

theorem FromAnyValue_mismatch_counterexample:
  "FromAnyValue id (Slice [Leaf Int32]) = (\<lparr>DType = Int32, AxisLengths = [1]\<rparr>, None) \<and>
   FromAnyValue id (Slice [Leaf Int32, Leaf Int32]) = (\<lparr>DType = Int32, AxisLengths = [2]\<rparr>, None) \<and>
   has_mismatch id (Slice [Slice [Slice []],
                           Slice [Slice [Leaf Int32], Slice [Leaf Int32, Leaf Int32]]]) \<and>
   snd (FromAnyValue id (Slice [Slice [Slice []],
                                Slice [Slice [Leaf Int32], Slice [Leaf Int32, Leaf Int32]]]))
     = Some EmptySlice"
  by (simp add: FromAnyValue_def Equal_def NumAxes_def IsScalar_def Ok_def)

end
